theory Spec2Isabelle
  imports Complex_Main
begin

section \<open>JavaScript numbers\<close>

text \<open>
  The library computes with JavaScript numbers, IEEE doubles. A number is modelled as a
  finite real value, one of the two infinities, or NaN; the sign of zero is not modelled
  (the only zero is the positive one). The special values follow the IEEE rules the
  source relies on: \<open>0 / 0\<close> is NaN, NaN is absorbing, and every comparison with NaN is
  false. The operations \<open>+\<close>, \<open>-\<close>, \<open>*\<close>, \<open>/\<close> and \<open>Math.sqrt\<close> of the doubles are
  correctly rounded: the result is the rounding of the real result. The rounding is a
  parameter of every operation and of every function that computes: \<open>ieee_double\<close>
  rounds to the nearest double, as the source does, and \<open>exact\<close> keeps the real
  result, for the statements about the values meant (a mean, a distance). Array lengths
  and indexes are integers below \<open>2\<^sup>5\<^sup>3\<close>, which the doubles represent exactly.
\<close>

datatype jsnum = Num real | PosInf | NegInf | NaN

datatype js_error = TypeError

type_synonym rounding = "real \<Rightarrow> jsnum"

abbreviation (input) exact :: rounding where
  "exact \<equiv> Num"

text \<open>The sign of an infinite result: positive when the signs agree.\<close>

definition js_inf :: "bool \<Rightarrow> jsnum" where
  "js_inf positive = (if positive then PosInf else NegInf)"

text \<open>
  Rounding to the nearest double, ties to the even significand. A double is an integer
  multiple of \<open>2\<^sup>e\<close>, where \<open>e\<close> is \<open>52\<close> below the binary exponent of the value (a
  significand of \<open>53\<close> bits) and never below \<open>-1074\<close> (the subnormal numbers); a
  rounded value of magnitude \<open>2\<^sup>1\<^sup>0\<^sup>2\<^sup>4\<close> or more overflows to an infinity.
\<close>

definition round_even :: "real \<Rightarrow> int" where
  "round_even y =
     (let f = \<lfloor>y\<rfloor>
      in if y - of_int f < 1 / 2 then f
         else if 1 / 2 < y - of_int f then f + 1
         else if even f then f else f + 1)"

definition ieee_double :: rounding where
  "ieee_double x =
     (if x = 0 then Num 0
      else
        (let e = max (\<lfloor>log 2 \<bar>x\<bar>\<rfloor> - 52) (- 1074);
             r = of_int (round_even (x / 2 powi e)) * 2 powi e
         in if 2 powi 1024 \<le> \<bar>r\<bar> then js_inf (0 < x) else Num r))"

fun js_neg :: "jsnum \<Rightarrow> jsnum" where
  "js_neg (Num a) = Num (- a)"
| "js_neg PosInf = NegInf"
| "js_neg NegInf = PosInf"
| "js_neg NaN = NaN"

fun js_add :: "rounding \<Rightarrow> jsnum \<Rightarrow> jsnum \<Rightarrow> jsnum" where
  "js_add rnd (Num a) (Num b) = rnd (a + b)"
| "js_add rnd (Num a) PosInf = PosInf"
| "js_add rnd (Num a) NegInf = NegInf"
| "js_add rnd PosInf (Num b) = PosInf"
| "js_add rnd PosInf PosInf = PosInf"
| "js_add rnd PosInf NegInf = NaN"
| "js_add rnd NegInf (Num b) = NegInf"
| "js_add rnd NegInf NegInf = NegInf"
| "js_add rnd NegInf PosInf = NaN"
| "js_add rnd NaN y = NaN"
| "js_add rnd x NaN = NaN"

definition js_sub :: "rounding \<Rightarrow> jsnum \<Rightarrow> jsnum \<Rightarrow> jsnum" where
  "js_sub rnd x y = js_add rnd x (js_neg y)"

fun js_mul :: "rounding \<Rightarrow> jsnum \<Rightarrow> jsnum \<Rightarrow> jsnum" where
  "js_mul rnd (Num a) (Num b) = rnd (a * b)"
| "js_mul rnd (Num a) PosInf = (if a = 0 then NaN else js_inf (0 < a))"
| "js_mul rnd (Num a) NegInf = (if a = 0 then NaN else js_inf (a < 0))"
| "js_mul rnd PosInf (Num b) = (if b = 0 then NaN else js_inf (0 < b))"
| "js_mul rnd NegInf (Num b) = (if b = 0 then NaN else js_inf (b < 0))"
| "js_mul rnd PosInf PosInf = PosInf"
| "js_mul rnd PosInf NegInf = NegInf"
| "js_mul rnd NegInf PosInf = NegInf"
| "js_mul rnd NegInf NegInf = PosInf"
| "js_mul rnd NaN y = NaN"
| "js_mul rnd x NaN = NaN"

fun js_div :: "rounding \<Rightarrow> jsnum \<Rightarrow> jsnum \<Rightarrow> jsnum" where
  "js_div rnd (Num a) (Num b) =
     (if b = 0 then (if a = 0 then NaN else js_inf (0 < a)) else rnd (a / b))"
| "js_div rnd (Num a) PosInf = Num 0"
| "js_div rnd (Num a) NegInf = Num 0"
| "js_div rnd PosInf (Num b) = js_inf (0 \<le> b)"
| "js_div rnd NegInf (Num b) = js_inf (b < 0)"
| "js_div rnd PosInf PosInf = NaN"
| "js_div rnd PosInf NegInf = NaN"
| "js_div rnd NegInf PosInf = NaN"
| "js_div rnd NegInf NegInf = NaN"
| "js_div rnd NaN y = NaN"
| "js_div rnd x NaN = NaN"

fun js_sqrt :: "rounding \<Rightarrow> jsnum \<Rightarrow> jsnum" where
  "js_sqrt rnd (Num a) = (if a < 0 then NaN else rnd (sqrt a))"
| "js_sqrt rnd PosInf = PosInf"
| "js_sqrt rnd NegInf = NaN"
| "js_sqrt rnd NaN = NaN"

fun js_abs :: "jsnum \<Rightarrow> jsnum" where
  "js_abs (Num a) = Num \<bar>a\<bar>"
| "js_abs PosInf = PosInf"
| "js_abs NegInf = PosInf"
| "js_abs NaN = NaN"

text \<open>The comparison \<open>x < y\<close>; \<open>x > y\<close> is \<open>js_less y x\<close>.\<close>

fun js_less :: "jsnum \<Rightarrow> jsnum \<Rightarrow> bool" where
  "js_less (Num a) (Num b) = (a < b)"
| "js_less (Num a) PosInf = True"
| "js_less (Num a) NegInf = False"
| "js_less PosInf y = False"
| "js_less NegInf (Num b) = True"
| "js_less NegInf PosInf = True"
| "js_less NegInf NegInf = False"
| "js_less NaN y = False"
| "js_less x NaN = False"

text \<open>
  Reading an array of numbers past its end gives \<open>undefined\<close>, which every arithmetic
  operator of the source converts to NaN.
\<close>

definition js_nth :: "jsnum list \<Rightarrow> nat \<Rightarrow> jsnum" where
  "js_nth xs i = (if i < length xs then xs ! i else NaN)"

section \<open>Metric library\<close>

definition dotProduct :: "rounding \<Rightarrow> jsnum list \<Rightarrow> jsnum list \<Rightarrow> jsnum" where
  "dotProduct rnd vecA vecB =
     fold (\<lambda>i product. js_add rnd product (js_mul rnd (js_nth vecA i) (js_nth vecB i)))
       [0 ..< length vecA] (Num 0)"

definition norm_vec :: "rounding \<Rightarrow> jsnum list \<Rightarrow> jsnum" where
  "norm_vec rnd vec =
     js_sqrt rnd (fold (\<lambda>i sum. js_add rnd sum (js_mul rnd (js_nth vec i) (js_nth vec i)))
       [0 ..< length vec] (Num 0))"

definition cosineSimilarity :: "rounding \<Rightarrow> jsnum list \<Rightarrow> jsnum list \<Rightarrow> jsnum" where
  "cosineSimilarity rnd vecA vecB =
     js_div rnd (dotProduct rnd vecA vecB) (js_mul rnd (norm_vec rnd vecA) (norm_vec rnd vecB))"

definition euclideanDistance :: "rounding \<Rightarrow> jsnum list \<Rightarrow> jsnum list \<Rightarrow> jsnum" where
  "euclideanDistance rnd a b =
     (let size = min (length a) (length b)
      in js_sqrt rnd (fold (\<lambda>index sum.
            js_add rnd sum (js_mul rnd (js_sub rnd (js_nth a index) (js_nth b index))
                               (js_sub rnd (js_nth a index) (js_nth b index))))
          [0 ..< size] (Num 0)))"

text \<open>
  \<open>averageDistance\<close>: the two nested \<open>for ... of\<close> loops accumulate
  \<open>distances[a][b]\<close>. The row \<open>distances[a]\<close> is \<open>undefined\<close> when \<open>a\<close> is not a row
  of the matrix, and reading \<open>[b]\<close> of it throws a TypeError; a column past the end of a
  row reads \<open>undefined\<close> and turns the sum into NaN. The row is only read inside the inner
  loop, so an empty \<open>setB\<close> never throws.
\<close>

fun averageDistance_inner ::
  "rounding \<Rightarrow> jsnum list list \<Rightarrow> nat \<Rightarrow> nat list \<Rightarrow> jsnum \<Rightarrow> js_error + jsnum" where
  "averageDistance_inner rnd distances a [] distance = Inr distance"
| "averageDistance_inner rnd distances a (b # setB) distance =
     (if a < length distances
      then averageDistance_inner rnd distances a setB
             (js_add rnd distance (js_nth (distances ! a) b))
      else Inl TypeError)"

fun averageDistance_outer ::
  "rounding \<Rightarrow> jsnum list list \<Rightarrow> nat list \<Rightarrow> nat list \<Rightarrow> jsnum \<Rightarrow> js_error + jsnum" where
  "averageDistance_outer rnd distances [] setB distance = Inr distance"
| "averageDistance_outer rnd distances (a # setA) setB distance =
     (case averageDistance_inner rnd distances a setB distance of
        Inl e \<Rightarrow> Inl e
      | Inr distance' \<Rightarrow> averageDistance_outer rnd distances setA setB distance')"

definition averageDistance ::
  "rounding \<Rightarrow> nat list \<Rightarrow> nat list \<Rightarrow> jsnum list list \<Rightarrow> js_error + jsnum" where
  "averageDistance rnd setA setB distances =
     (case averageDistance_outer rnd distances setA setB (Num 0) of
        Inl e \<Rightarrow> Inl e
      | Inr distance \<Rightarrow>
          Inr (js_div rnd (js_div rnd distance (Num (real (length setA))))
                      (Num (real (length setB)))))"

section \<open>Distance matrix and agglomerative engine\<close>

text \<open>
  A cluster node. The singletons of the source carry no \<open>children\<close> field; they are
  modelled with the empty list of children.
\<close>

datatype cluster = Cluster (indexes: "nat list") (height: jsnum) (children: "cluster list")

type_synonym linkage_fn = "nat list \<Rightarrow> nat list \<Rightarrow> jsnum list list \<Rightarrow> js_error + jsnum"

text \<open>
  \<open>updateProgress\<close>: the callback is modelled by whether \<open>onProgress\<close> is a function
  and by the list of the values it has been called with so far.
\<close>

definition updateProgress :: "rounding \<Rightarrow> jsnum \<Rightarrow> jsnum \<Rightarrow> bool \<Rightarrow> jsnum list \<Rightarrow> jsnum list" where
  "updateProgress rnd stepNumber stepProgress onProgress reported =
     (if \<not> onProgress then reported
      else reported @ [js_add rnd (js_div rnd stepNumber (Num 2)) (js_div rnd stepProgress (Num 2))])"

text \<open>
  The scan of the upper triangle. The candidate is the triple
  \<open>(nearestDistance, nearestRow, nearestCol)\<close>; the two counting loops run over the
  index ranges \<open>[0 ..< clusters.length]\<close> and \<open>[row + 1 ..< clusters.length]\<close>. An
  exception of the linkage function ends the scan.
\<close>

fun scan_cols ::
  "linkage_fn \<Rightarrow> cluster list \<Rightarrow> jsnum list list \<Rightarrow> nat \<Rightarrow> nat list \<Rightarrow>
   jsnum \<times> nat \<times> nat \<Rightarrow> js_error + jsnum \<times> nat \<times> nat" where
  "scan_cols linkage cs distances row [] nearest = Inr nearest"
| "scan_cols linkage cs distances row (col # cols) nearest =
     (case linkage (indexes (cs ! row)) (indexes (cs ! col)) distances of
        Inl e \<Rightarrow> Inl e
      | Inr distance \<Rightarrow>
          scan_cols linkage cs distances row cols
            (if js_less distance (fst nearest) then (distance, row, col) else nearest))"

fun scan_rows ::
  "linkage_fn \<Rightarrow> cluster list \<Rightarrow> jsnum list list \<Rightarrow> nat list \<Rightarrow>
   jsnum \<times> nat \<times> nat \<Rightarrow> js_error + jsnum \<times> nat \<times> nat" where
  "scan_rows linkage cs distances [] nearest = Inr nearest"
| "scan_rows linkage cs distances (row # rows) nearest =
     (case scan_cols linkage cs distances row [row + 1 ..< length cs] nearest of
        Inl e \<Rightarrow> Inl e
      | Inr nearest' \<Rightarrow> scan_rows linkage cs distances rows nearest')"

definition find_nearest ::
  "linkage_fn \<Rightarrow> cluster list \<Rightarrow> jsnum list list \<Rightarrow> js_error + jsnum \<times> nat \<times> nat" where
  "find_nearest linkage cs distances =
     scan_rows linkage cs distances [0 ..< length cs] (PosInf, 0, 0)"

text \<open>\<open>xs.splice(i, 1)\<close>: removes the element at position \<open>i\<close>, if there is one.\<close>

definition splice1 :: "nat \<Rightarrow> 'a list \<Rightarrow> 'a list" where
  "splice1 i xs = take i xs @ drop (Suc i) xs"

text \<open>
  The merge of the two nearest clusters. Reading \<open>.indexes\<close> of a position outside the
  working collection would throw a TypeError.
\<close>

definition merge_nearest :: "cluster list \<Rightarrow> jsnum \<times> nat \<times> nat \<Rightarrow> js_error + cluster list" where
  "merge_nearest cs nearest =
     (case nearest of (nearestDistance, nearestRow, nearestCol) \<Rightarrow>
        if nearestRow < length cs \<and> nearestCol < length cs then
          (let newCluster =
                 Cluster (indexes (cs ! nearestRow) @ indexes (cs ! nearestCol))
                   nearestDistance [cs ! nearestRow, cs ! nearestCol];
               cs1 = splice1 (max nearestRow nearestCol) cs;
               cs2 = splice1 (min nearestRow nearestCol) cs1
           in Inr (cs2 @ [newCluster]))
        else Inl TypeError)"

text \<open>
  The main loop, from \<open>iteration\<close> on. The state is the working collection, the slices
  recorded so far and the progress values reported so far; the reported values are
  returned also when the loop ends with an exception.
\<close>

function merge_loop ::
  "rounding \<Rightarrow> linkage_fn \<Rightarrow> jsnum list list \<Rightarrow> bool \<Rightarrow> nat \<Rightarrow> nat \<Rightarrow> cluster list \<Rightarrow>
   nat list list list \<Rightarrow> jsnum list \<Rightarrow>
   jsnum list \<times> (js_error + cluster list \<times> nat list list list)" where
  "merge_loop rnd linkage distances onProgress n iteration cs slices reported =
     (if iteration < n then
        (let reported' = updateProgress rnd (Num 1)
               (js_div rnd (Num (real (iteration + 1))) (Num (real n))) onProgress reported;
             slices' = slices @ [map indexes cs]
         in if int n - 1 \<le> int iteration then (reported', Inr (cs, slices'))
            else
              (case find_nearest linkage cs distances of
                 Inl e \<Rightarrow> (reported', Inl e)
               | Inr nearest \<Rightarrow>
                   (case merge_nearest cs nearest of
                      Inl e \<Rightarrow> (reported', Inl e)
                    | Inr cs' \<Rightarrow>
                        merge_loop rnd linkage distances onProgress n (iteration + 1)
                          cs' slices' reported')))
      else (reported, Inr (cs, slices)))"
  by pat_completeness auto
termination
  by (relation "measure (\<lambda>(rnd, linkage, distances, onProgress, n, iteration, cs, slices, reported).
                  n - iteration)") auto

declare merge_loop.simps [simp del]

text \<open>
  The object \<open>clusterData\<close> returns: \<open>clusters\<close>, \<open>distances\<close>, \<open>order\<close> and
  \<open>clustersGivenK\<close>.
\<close>

record clusterResult =
  res_clusters :: cluster
  res_distances :: "jsnum list list"
  res_order :: "nat list"
  res_clustersGivenK :: "nat list list list"

text \<open>The matrix of the distances between each record and every record.\<close>

definition distance_matrix :: "('a \<Rightarrow> 'a \<Rightarrow> jsnum) \<Rightarrow> 'a list \<Rightarrow> jsnum list list" where
  "distance_matrix distance data =
     map (\<lambda>datum. map (\<lambda>otherDatum. distance datum otherDatum) data) data"

text \<open>
  \<open>clusterData\<close>, on the data after the optional extraction of \<open>key\<close>. The result is
  the list of the progress values reported, and either the exception thrown or the
  object returned. The pairwise \<open>distance\<close> is a function that returns a number, so
  the rows of the matrix (\<open>distance_matrix\<close>) and the progress values of the matrix
  phase, which the source produces in the same \<open>map\<close> callback, are computed apart.
  With \<open>onProgress = False\<close> this is also the variant of the function that reports no
  progress. Reading \<open>clusters[0].indexes\<close> of an empty working collection throws a
  TypeError.
\<close>

definition clusterData ::
  "rounding \<Rightarrow> ('a \<Rightarrow> 'a \<Rightarrow> jsnum) \<Rightarrow> linkage_fn \<Rightarrow> bool \<Rightarrow> 'a list \<Rightarrow>
   jsnum list \<times> (js_error + clusterResult)" where
  "clusterData rnd distance linkage onProgress data =
     (let n = length data;
          reported = fold (\<lambda>index. updateProgress rnd (Num 0)
                        (js_div rnd (Num (real index)) (Num (real_of_int (int n - 1)))) onProgress)
                      [0 ..< n] [];
          distances = distance_matrix distance data;
          cs = map (\<lambda>index. Cluster [index] (Num 0) []) [0 ..< n]
      in case merge_loop rnd linkage distances onProgress n 0 cs [] reported of
           (reported', Inl e) \<Rightarrow> (reported', Inl e)
         | (reported', Inr (cs', slices)) \<Rightarrow>
             (case cs' of
                [] \<Rightarrow> (reported', Inl TypeError)
              | c0 # rest \<Rightarrow>
                  (reported',
                   Inr \<lparr>res_clusters = c0, res_distances = distances,
                        res_order = indexes c0,
                        res_clustersGivenK = [] # rev slices\<rparr>)))"

section \<open>Elbow selector\<close>







text \<open>
  \<open>findElbowPoint\<close>. For an empty list both \<open>variances[0]\<close> and \<open>variances[-1]\<close> are
  \<open>undefined\<close>; \<open>js_nth\<close> reads both as NaN (the position \<open>nPoints - 1\<close> is past the
  end of the empty list also after the truncation to \<open>0\<close>).
\<close>

definition elbow_distance :: "rounding \<Rightarrow> jsnum list \<Rightarrow> jsnum list \<Rightarrow> jsnum list \<Rightarrow> jsnum" where
  "elbow_distance rnd firstPoint lastPoint currentPoint =
     js_div rnd
       (js_abs
          (js_sub rnd
             (js_add rnd
                (js_sub rnd
                   (js_mul rnd (js_sub rnd (js_nth lastPoint 1) (js_nth firstPoint 1))
                           (js_nth currentPoint 0))
                   (js_mul rnd (js_sub rnd (js_nth lastPoint 0) (js_nth firstPoint 0))
                           (js_nth currentPoint 1)))
                (js_mul rnd (js_nth lastPoint 0) (js_nth firstPoint 1)))
             (js_mul rnd (js_nth lastPoint 1) (js_nth firstPoint 0))))
       (euclideanDistance rnd firstPoint lastPoint)"

definition elbow_step :: "rounding \<Rightarrow> jsnum list \<Rightarrow> jsnum list \<Rightarrow> jsnum list \<Rightarrow> nat \<Rightarrow> jsnum \<times> nat \<Rightarrow> jsnum \<times> nat" where
  "elbow_step rnd variances firstPoint lastPoint i best =
     (let currentPoint = [Num (real i), js_nth variances (i - 1)];
          distance = elbow_distance rnd firstPoint lastPoint currentPoint
      in if js_less (fst best) distance then (distance, i) else best)"

definition findElbowPoint :: "rounding \<Rightarrow> jsnum list \<Rightarrow> nat" where
  "findElbowPoint rnd variances =
     (let nPoints = length variances;
          firstPoint = [Num 1, js_nth variances 0];
          lastPoint = [Num (real nPoints), js_nth variances (nPoints - 1)]
      in snd (fold (elbow_step rnd variances firstPoint lastPoint) [2 ..< nPoints + 1] (Num 0, 1)))"

section \<open>Specification: the scan order\<close>

text \<open>
  The unordered pairs \<open>row < col\<close> of \<open>n\<close> positions, in the row-major order in which
  the scan visits them, and the update of a candidate at a position \<open>p\<close> whose value is
  \<open>f p\<close>: the position replaces the candidate when its value is strictly better
  (smaller, for the scan) than the candidate's.
\<close>

definition pairs :: "nat \<Rightarrow> (nat \<times> nat) list" where
  "pairs n = concat (map (\<lambda>row. map (Pair row) [row + 1 ..< n]) [0 ..< n])"

definition strict_order :: "('a \<Rightarrow> 'a \<Rightarrow> bool) \<Rightarrow> bool" where
  "strict_order better =
     ((\<forall>x. \<not> better x x) \<and> (\<forall>x y z. better x y \<and> better y z \<longrightarrow> better x z))"

definition cand_step ::
  "(jsnum \<Rightarrow> jsnum \<Rightarrow> bool) \<Rightarrow> ('p \<Rightarrow> jsnum) \<Rightarrow> 'p \<Rightarrow> jsnum \<times> 'p \<Rightarrow> jsnum \<times> 'p" where
  "cand_step better f p cand = (if better (f p) (fst cand) then (f p, p) else cand)"

section \<open>Specification: partitions and linkage values\<close>

text \<open>
  A list of index lists is a partition of \<open>{0, ..., n - 1}\<close> when every index below
  \<open>n\<close> occurs in exactly one of the lists, exactly once, and no list is empty. A linkage
  function is finite on a matrix when, on non-empty lists of indexes below \<open>n\<close>, it
  returns a number strictly below \<open>Infinity\<close> (so neither \<open>Infinity\<close> nor NaN).
\<close>

definition is_partition :: "nat \<Rightarrow> nat list list \<Rightarrow> bool" where
  "is_partition n sets =
     (distinct (concat sets) \<and> set (concat sets) = {..<n} \<and> [] \<notin> set sets)"

definition finite_linkage :: "linkage_fn \<Rightarrow> jsnum list list \<Rightarrow> nat \<Rightarrow> bool" where
  "finite_linkage linkage M n =
     (\<forall>a b. a \<noteq> [] \<and> b \<noteq> [] \<and> set a \<subseteq> {..<n} \<and> set b \<subseteq> {..<n} \<longrightarrow>
        (\<exists>v. linkage a b M = Inr v \<and> js_less v PosInf))"

section \<open>Specification: the progress values of the merge phase\<close>

text \<open>
  The values the merge phase reports from \<open>iteration\<close> on, when \<open>onProgress\<close> is a
  function: \<open>1 / 2 + ((i + 1) / n) / 2\<close>, as computed, for each remaining iteration
  \<open>i\<close>.
\<close>

definition merge_progress :: "rounding \<Rightarrow> bool \<Rightarrow> nat \<Rightarrow> nat \<Rightarrow> jsnum list" where
  "merge_progress rnd onProgress n iteration =
     (if onProgress
      then map (\<lambda>i. js_add rnd (js_div rnd (Num 1) (Num 2))
                    (js_div rnd (js_div rnd (Num (real (i + 1))) (Num (real n))) (Num 2)))
             [iteration ..< n]
      else [])"

section \<open>Specification: the mean pairwise distance of a cluster\<close>



section \<open>Specification: the progress values of a whole run\<close>

text \<open>
  The values a run on \<open>n\<close> records reports: \<open>(i / (n - 1)) / 2\<close> for each row \<open>i\<close>
  of the matrix, then \<open>1 / 2 + ((i + 1) / n) / 2\<close> for each iteration \<open>i\<close> of the merge
  loop.
\<close>

definition progress_values :: "nat \<Rightarrow> real list" where
  "progress_values n =
     map (\<lambda>i. real i / (real n - 1) / 2) [0 ..< n] @
     map (\<lambda>i. 1 / 2 + real (i + 1) / real n / 2) [0 ..< n]"

section \<open>Specification: the distance the elbow selector compares\<close>

text \<open>
  The value \<open>findElbowPoint\<close> computes for the point \<open>(i, variances[i - 1])\<close>: its
  distance to the line through the first and the last point, as the source computes it.
\<close>

definition elbow_value :: "rounding \<Rightarrow> jsnum list \<Rightarrow> nat \<Rightarrow> jsnum" where
  "elbow_value rnd variances i =
     elbow_distance rnd [Num 1, js_nth variances 0]
       [Num (real (length variances)), js_nth variances (length variances - 1)]
       [Num (real i), js_nth variances (i - 1)]"

section \<open>Specification: the perpendicular distance\<close>

text \<open>
  The distance of the point \<open>p0\<close> to the line through \<open>p1\<close> and \<open>p2\<close>, by the two-point
  formula, and the distance of the point \<open>(i, vs[i - 1])\<close> to the line through the first
  and the last point of the sequence \<open>vs\<close>.
\<close>

definition point_line_distance :: "real \<times> real \<Rightarrow> real \<times> real \<Rightarrow> real \<times> real \<Rightarrow> real" where
  "point_line_distance p1 p2 p0 =
     \<bar>(snd p2 - snd p1) * fst p0 - (fst p2 - fst p1) * snd p0 + fst p2 * snd p1 - snd p2 * fst p1\<bar> /
     sqrt ((fst p2 - fst p1)\<^sup>2 + (snd p2 - snd p1)\<^sup>2)"

definition elbow_perp :: "real list \<Rightarrow> nat \<Rightarrow> real" where
  "elbow_perp vs i =
     point_line_distance (1, vs ! 0) (real (length vs), vs ! (length vs - 1))
       (real i, vs ! (i - 1))"

section \<open>Rounding to the nearest double\<close>

text \<open>
  Within the range of the normal doubles, a value of the binade \<open>[2\<^sup>k, 2\<^sup>k\<^sup>+\<^sup>1)\<close> is
  rounded to a multiple of \<open>2\<^sup>k\<^sup>-\<^sup>5\<^sup>2\<close> and stays in the closed binade; in particular a
  positive value is rounded to a positive number.
\<close>

lemma round_even_of_int: "round_even (of_int m) = m"
  by (simp add: round_even_def)

lemma round_even_bounds: "\<lfloor>y\<rfloor> \<le> round_even y \<and> round_even y \<le> \<lfloor>y\<rfloor> + 1"
  by (simp add: round_even_def Let_def)

lemma powr_powi_2: "2 powr (real_of_int k) = (2::real) powi k"
  by (simp add: powr_real_of_int')

lemma floor_log2_binade:
  assumes "2 powi k \<le> x" and "x < 2 powi (k + 1)"
  shows "\<lfloor>log 2 x\<rfloor> = k"
proof -
  have "(0::real) < 2 powi k" by simp
  then have pos: "0 < x" using assms(1) by linarith
  have "2 powr (real_of_int k) \<le> x \<and> x < 2 powr (real_of_int k + 1)"
    using assms powr_powi_2 [of k] powr_powi_2 [of "k + 1"] by simp
  then show ?thesis using pos by (simp add: floor_log_eq_powr_iff)
qed

lemma binade_of_positive:
  assumes "0 < x"
  shows "2 powi \<lfloor>log 2 x\<rfloor> \<le> x \<and> x < 2 powi (\<lfloor>log 2 x\<rfloor> + 1)"
proof -
  have "2 powr (real_of_int \<lfloor>log 2 x\<rfloor>) \<le> x \<and> x < 2 powr (real_of_int \<lfloor>log 2 x\<rfloor> + 1)"
    using assms floor_log_eq_powr_iff [of x 2 "\<lfloor>log 2 x\<rfloor>"] by simp
  then show ?thesis
    using powr_powi_2 [of "\<lfloor>log 2 x\<rfloor>"] powr_powi_2 [of "\<lfloor>log 2 x\<rfloor> + 1"] by simp
qed

lemma ieee_double_binade:
  assumes lo: "2 powi k \<le> \<bar>x\<bar>" and hi: "\<bar>x\<bar> < 2 powi (k + 1)"
    and "- 1022 \<le> k" and "k \<le> 1022"
  shows "ieee_double x = Num (of_int (round_even (x / 2 powi (k - 52))) * 2 powi (k - 52))"
proof -
  define u :: real where "u = 2 powi (k - 52)"
  define y where "y = x / u"
  define m where "m = round_even y"
  have upos: "0 < u" by (simp add: u_def)
  have "(0::real) < 2 powi k" by simp
  then have "0 < \<bar>x\<bar>" using lo by linarith
  then have nz: "x \<noteq> 0" by simp
  have e: "max (\<lfloor>log 2 \<bar>x\<bar>\<rfloor> - 52) (- 1074) = k - 52"
    using floor_log2_binade [OF lo hi] assms(3) by simp
  have "(2::real) powi (k - 52 + 53) = 2 powi (k - 52) * 2 powi 53"
    by (rule power_int_add) simp
  moreover have "k - 52 + 53 = k + 1" by simp
  ultimately have split: "2 powi (k + 1) = u * 2 ^ 53"
    by (simp add: u_def)
  have "\<bar>y\<bar> = \<bar>x\<bar> / u" using upos by (simp add: y_def abs_divide)
  also have "\<dots> < (u * 2 ^ 53) / u"
    using hi upos unfolding split by (rule divide_strict_right_mono)
  also have "\<dots> = 2 ^ 53" using upos by simp
  finally have "\<bar>y\<bar> < 2 ^ 53" .
  then have y: "- (2 ^ 53) < y" "y < 2 ^ 53" by linarith+
  have "- (2 ^ 53) \<le> \<lfloor>y\<rfloor>" using y(1) by (simp add: le_floor_iff)
  moreover have "\<lfloor>y\<rfloor> < 2 ^ 53" using y(2) by (simp add: floor_less_iff)
  ultimately have "- (2 ^ 53) \<le> m \<and> m \<le> 2 ^ 53"
    using round_even_bounds [of y] unfolding m_def by linarith
  then have "\<bar>real_of_int m\<bar> \<le> 2 ^ 53"
    by (simp add: abs_le_iff)
  then have "\<bar>real_of_int m\<bar> * u \<le> 2 ^ 53 * u"
    using upos by (simp add: mult_right_mono)
  then have "\<bar>real_of_int m * u\<bar> \<le> 2 ^ 53 * u"
    using upos by (simp add: abs_mult)
  also have "2 ^ 53 * u = 2 powi (k + 1)"
    unfolding split by simp
  also have "\<dots> < 2 powi 1024"
    using assms(4) by (intro power_int_strict_increasing) simp_all
  finally have "\<not> 2 powi 1024 \<le> \<bar>real_of_int m * u\<bar>" by simp
  then have "ieee_double x = Num (real_of_int m * u)"
    using nz e unfolding m_def y_def u_def ieee_double_def Let_def by (simp only: if_False)
  then show ?thesis unfolding m_def y_def u_def .
qed

lemma ieee_double_binade_range:
  assumes "2 powi k \<le> x" and "x < 2 powi (k + 1)" and "- 1022 \<le> k" and "k \<le> 1022"
  shows "\<exists>r. ieee_double x = Num r \<and> 2 powi k \<le> r \<and> r \<le> 2 powi (k + 1)"
proof -
  define u :: real where "u = 2 powi (k - 52)"
  have upos: "0 < u" by (simp add: u_def)
  have "(0::real) < 2 powi k" by simp
  then have ax: "\<bar>x\<bar> = x" using assms(1) by linarith
  have r: "ieee_double x = Num (of_int (round_even (x / u)) * u)"
    unfolding u_def using assms by (intro ieee_double_binade) (simp_all add: ax)
  have "(2::real) powi (k - 52 + 52) = 2 powi (k - 52) * 2 powi 52"
    by (rule power_int_add) simp
  then have lo: "2 powi k = u * 2 ^ 52" by (simp add: u_def)
  have "(2::real) powi (k - 52 + 53) = 2 powi (k - 52) * 2 powi 53"
    by (rule power_int_add) simp
  moreover have "k - 52 + 53 = k + 1" by simp
  ultimately have hi: "2 powi (k + 1) = u * 2 ^ 53" by (simp add: u_def)
  have "2 ^ 52 = (u * 2 ^ 52) / u" using upos by simp
  also have "\<dots> \<le> x / u"
    using assms(1) upos unfolding lo by (intro divide_right_mono) simp_all
  finally have "2 ^ 52 \<le> \<lfloor>x / u\<rfloor>" by (simp add: le_floor_iff)
  then have "2 ^ 52 \<le> round_even (x / u)"
    using round_even_bounds [of "x / u"] by linarith
  then have "(2 ^ 52 :: real) \<le> of_int (round_even (x / u))"
    by (metis of_int_le_iff of_int_numeral of_int_power)
  then have "2 ^ 52 * u \<le> of_int (round_even (x / u)) * u"
    using upos by (simp add: mult_right_mono)
  then have 1: "2 powi k \<le> of_int (round_even (x / u)) * u"
    unfolding lo by (simp add: mult.commute)
  have "x / u < (u * 2 ^ 53) / u"
    using assms(2) upos unfolding hi by (rule divide_strict_right_mono)
  also have "\<dots> = 2 ^ 53" using upos by simp
  finally have "\<lfloor>x / u\<rfloor> < 2 ^ 53" by (simp add: floor_less_iff)
  then have "round_even (x / u) \<le> 2 ^ 53"
    using round_even_bounds [of "x / u"] by linarith
  then have "of_int (round_even (x / u)) \<le> (2 ^ 53 :: real)"
    by (metis of_int_le_iff of_int_numeral of_int_power)
  then have "of_int (round_even (x / u)) * u \<le> 2 ^ 53 * u"
    using upos by (simp add: mult_right_mono)
  then have 2: "of_int (round_even (x / u)) * u \<le> 2 powi (k + 1)"
    unfolding hi by (simp add: mult.commute)
  show ?thesis using r 1 2 by blast
qed

lemma ieee_double_positive:
  assumes "2 powi (- 1022) \<le> x" and "x < 2 powi 1023"
  shows "\<exists>r. ieee_double x = Num r \<and> 0 < r"
proof -
  have "(0::real) < 2 powi (- 1022)" by (rule zero_less_power_int) simp
  then have pos: "0 < x" using assms(1) by linarith
  define k where "k = \<lfloor>log 2 x\<rfloor>"
  have b: "2 powi k \<le> x" "x < 2 powi (k + 1)"
    using binade_of_positive [OF pos] by (simp_all add: k_def)
  have "- 1022 \<le> k"
  proof (rule ccontr)
    assume "\<not> - 1022 \<le> k"
    then have "k + 1 \<le> - 1022" by simp
    then have "(2::real) powi (k + 1) \<le> 2 powi (- 1022)"
      by (intro power_int_increasing) simp_all
    then show False using b(2) assms(1) by linarith
  qed
  moreover have "k \<le> 1022"
  proof (rule ccontr)
    assume "\<not> k \<le> 1022"
    then have "1023 \<le> k" by simp
    then have "(2::real) powi 1023 \<le> 2 powi k"
      by (intro power_int_increasing) simp_all
    then show False using b(1) assms(2) by linarith
  qed
  ultimately obtain r where r: "ieee_double x = Num r" "2 powi k \<le> r"
    using ieee_double_binade_range [OF b] by blast
  have "(0::real) < 2 powi k" by simp
  then have "0 < r" using r(2) by linarith
  then show ?thesis using r(1) by blast
qed

lemma ieee_double_0: "ieee_double 0 = Num 0"
  by (simp add: ieee_double_def)

lemma ieee_double_1: "ieee_double 1 = Num 1"
  by (subst ieee_double_binade [where k = 0]) (simp_all add: round_even_def)

lemma ieee_double_2: "ieee_double 2 = Num 2"
  by (subst ieee_double_binade [where k = 1]) (simp_all add: round_even_def)

lemma ieee_double_m1: "ieee_double (- 1) = Num (- 1)"
  by (subst ieee_double_binade [where k = 0]) (simp_all add: round_even_def)

lemma ieee_double_m2: "ieee_double (- 2) = Num (- 2)"
  by (subst ieee_double_binade [where k = 1]) (simp_all add: round_even_def)

lemma ieee_double_tiny:
  assumes "t = 1 / 2 ^ 60"
  shows "ieee_double t = Num t" and "ieee_double (- t) = Num (- t)"
    and "ieee_double (t - 1) = Num (- 1)" and "ieee_double (1 - t) = Num 1"
    and "ieee_double (- 2 - t) = Num (- 2)"
proof -
  show "ieee_double t = Num t" unfolding assms
    by (subst ieee_double_binade [where k = "- 60"]) (simp_all add: round_even_def)
  show "ieee_double (- t) = Num (- t)" unfolding assms
    by (subst ieee_double_binade [where k = "- 60"]) (simp_all add: round_even_def)
  show "ieee_double (t - 1) = Num (- 1)" unfolding assms
    by (subst ieee_double_binade [where k = "- 1"]) (simp_all add: round_even_def)
  show "ieee_double (1 - t) = Num 1" unfolding assms
    by (subst ieee_double_binade [where k = "- 1"]) (simp_all add: round_even_def)
  show "ieee_double (- 2 - t) = Num (- 2)" unfolding assms
    by (subst ieee_double_binade [where k = 1]) (simp_all add: round_even_def)
qed

lemma ieee_double_half: "ieee_double (1 / 2) = Num (1 / 2)"
  by (subst ieee_double_binade [where k = "- 1"]) (simp_all add: round_even_def)


section \<open>The metric library: results\<close>

lemmas upt_eval =
  upt_rec [of _ "numeral _"] upt_rec [of _ "Suc _"] upt_rec [of _ 0] upt_rec [of _ 1]

lemma averageDistance_outer_empty_setB:
  "averageDistance_outer rnd distances setA [] distance = Inr distance"
  by (induction setA) simp_all

lemma averageDistance_inner_Num:
  "a < length R \<Longrightarrow> \<forall>b\<in>set setB. b < length (R ! a) \<Longrightarrow>
   averageDistance_inner exact (map (map Num) R) a setB (Num d) =
     Inr (Num (d + (\<Sum>b\<leftarrow>setB. R ! a ! b)))"
  by (induction setB arbitrary: d) (simp_all add: js_nth_def add.assoc)

lemma averageDistance_outer_Num:
  "\<forall>a\<in>set setA. a < length R \<and> (\<forall>b\<in>set setB. b < length (R ! a)) \<Longrightarrow>
   averageDistance_outer exact (map (map Num) R) setA setB (Num d) =
     Inr (Num (d + (\<Sum>a\<leftarrow>setA. \<Sum>b\<leftarrow>setB. R ! a ! b)))"
  by (induction setA arbitrary: d) (simp_all add: averageDistance_inner_Num add.assoc)



text \<open>
  C10. When \<open>setA\<close> or \<open>setB\<close> is empty, \<open>averageDistance\<close> does not return a real
  number, whatever the matrix: the accumulated sum is \<open>0\<close>, and dividing it by the zero
  length gives NaN (which the second division leaves NaN). Nothing is thrown in that case.
  This holds for every rounding that keeps \<open>0\<close>, as the exact one and that of the doubles
  do.
\<close>

theorem averageDistance_empty_is_NaN:
  assumes "rnd 0 = Num 0" and "setA = [] \<or> setB = []"
  shows "averageDistance rnd setA setB distances = Inr NaN"
proof (cases "setA = []")
  case True
  then show ?thesis by (simp add: averageDistance_def)
next
  case False
  then have "setB = []" using assms(2) by simp
  then show ?thesis
    using False assms(1) by (simp add: averageDistance_def averageDistance_outer_empty_setB)
qed

theorem averageDistance_empty_is_NaN_witness:
  "ieee_double 0 = Num 0 \<and> ([2, 0] = ([]::nat list) \<or> ([]::nat list) = []) \<and>
   averageDistance ieee_double [2, 0] [] [[Num 0, Num 1], [Num 1, Num 0]] = Inr NaN"
  using averageDistance_empty_is_NaN
          [of ieee_double "[2, 0]" "[]" "[[Num 0, Num 1], [Num 1, Num 0]]"]
  by (simp add: ieee_double_0)




section \<open>The engine on degenerate inputs\<close>

lemmas engine_eval =
  clusterData_def distance_matrix_def merge_loop.simps updateProgress_def find_nearest_def merge_nearest_def splice1_def
  cosineSimilarity_def dotProduct_def norm_vec_def averageDistance_def js_nth_def upt_eval

lemma js_add_NaN_right: "js_add rnd x NaN = NaN"
  by (cases x) simp_all

text \<open>
  C4. With no record at all (\<open>data = []\<close>, the default of the parameter), \<open>clusterData\<close>
  does not return an empty result: the loop body never runs, the working collection is
  empty, and building the returned object reads \<open>clusters[0].indexes\<close> of \<open>undefined\<close>,
  which throws a TypeError. This is so for every distance, linkage, callback and rounding.
\<close>

theorem clusterData_no_records_throws:
  "clusterData rnd distance linkage onProgress [] = ([], Inl TypeError)"
  by (simp add: clusterData_def distance_matrix_def merge_loop.simps)

text \<open>
  C9. With a single record the matrix phase reports \<open>0 / 2 + (0 / 0) / 2\<close>, which is
  NaN: the first value passed to \<open>onProgress\<close> is not a number of \<open>[0, 1]\<close>, whatever
  the record, the distance, the linkage and the rounding. The merge phase then reports
  \<open>1\<close>.
\<close>

theorem clusterData_single_record_reports_NaN:
  "hd (fst (clusterData rnd distance linkage True [x])) = NaN \<and>
   fst (clusterData ieee_double (cosineSimilarity ieee_double) (averageDistance ieee_double)
          True [[Num 1]]) = [NaN, Num 1]"
  by (simp add: clusterData_def distance_matrix_def merge_loop.simps updateProgress_def
        js_add_NaN_right ieee_double_0 ieee_double_1 ieee_double_half)

text \<open>
  C1. Two records, the first of them the zero vector, under the default cosine similarity
  and average linkage, with the arithmetic of the doubles: every distance that involves
  the first record is \<open>0 / 0\<close>, NaN, so the one linkage value of the scan is NaN and
  never replaces the initial candidate \<open>(Infinity, 0, 0)\<close>. The pair merged is
  \<open>(0, 0)\<close>, which is no pair \<open>row < col\<close>: the new cluster has cluster \<open>0\<close> twice as
  its children, the indexes \<open>[0, 0]\<close> and the height \<open>Infinity\<close>, and cluster \<open>1\<close> is
  dropped from the working collection by the second \<open>splice\<close>.
\<close>

theorem clusterData_zero_vector_merges_cluster_with_itself:
  "distance_matrix (cosineSimilarity ieee_double) [[Num 0], [Num 1]] =
     [[NaN, NaN], [NaN, Num 1]] \<and>
   find_nearest (averageDistance ieee_double)
     [Cluster [0] (Num 0) [], Cluster [1] (Num 0) []]
     [[NaN, NaN], [NaN, Num 1]] = Inr (PosInf, 0, 0) \<and>
   map_sum id res_clusters
     (snd (clusterData ieee_double (cosineSimilarity ieee_double) (averageDistance ieee_double)
             True [[Num 0], [Num 1]])) =
     Inr (Cluster [0, 0] PosInf [Cluster [0] (Num 0) [], Cluster [0] (Num 0) []])"
  by (simp add: engine_eval js_add_NaN_right ieee_double_0 ieee_double_1)

text \<open>
  C2. On the same input the slice recorded for \<open>K = 1\<close> is \<open>[[0, 0]]\<close>: the index \<open>0\<close>
  occurs twice and the index \<open>1\<close> is missing, so the slice is no partition of
  \<open>{0, 1}\<close>.
\<close>

theorem clusterData_zero_vector_slice_not_partition:
  "map_sum id (\<lambda>r. (res_clustersGivenK r ! 1, is_partition 2 (res_clustersGivenK r ! 1)))
     (snd (clusterData ieee_double (cosineSimilarity ieee_double) (averageDistance ieee_double)
             True [[Num 0], [Num 1]])) =
     Inr ([[0, 0]], False)"
  by (simp add: engine_eval js_add_NaN_right ieee_double_0 ieee_double_1 is_partition_def)

text \<open>
  C3. On the same input the table has its \<open>N + 1 = 3\<close> entries, the entry \<open>0\<close> empty and
  the entry \<open>2\<close> the two singletons, but the single list of the entry \<open>1\<close> does not
  contain all the indexes: the index \<open>1\<close> is not in it.
\<close>

theorem clusterData_zero_vector_table:
  "map_sum id (\<lambda>r. (res_clustersGivenK r, 1 \<in> set (concat (res_clustersGivenK r ! 1))))
     (snd (clusterData ieee_double (cosineSimilarity ieee_double) (averageDistance ieee_double)
             True [[Num 0], [Num 1]])) =
     Inr ([[], [[0, 0]], [[0], [1]]], False)"
  by (simp add: engine_eval js_add_NaN_right ieee_double_0 ieee_double_1)

section \<open>The scan of the upper triangle\<close>

lemma js_less_irrefl: "\<not> js_less x x"
  by (cases x) simp_all

lemma js_less_trans: "js_less x y \<Longrightarrow> js_less y z \<Longrightarrow> js_less x z"
  by (cases x; cases y; cases z) simp_all

lemma strict_order_js_less: "strict_order js_less"
  unfolding strict_order_def using js_less_irrefl js_less_trans by blast

lemma strict_order_js_greater: "strict_order (\<lambda>x y. js_less y x)"
  unfolding strict_order_def using js_less_irrefl js_less_trans by blast

lemma set_pairs: "set (pairs n) = {(r, c). r < c \<and> c < n}"
proof -
  have "(r, c) \<in> set (pairs n) \<longleftrightarrow> r < c \<and> c < n" for r c
    by (force simp: pairs_def)
  then show ?thesis by auto
qed

lemma pairs_3: "pairs (Suc (Suc (Suc 0))) = [(0, 1), (0, 2), (1, 2)]"
  by (simp add: pairs_def upt_eval)

lemma scan_cols_fold:
  "\<forall>col\<in>set cols. linkage (indexes (cs ! row)) (indexes (cs ! col)) M = Inr (f (row, col)) \<Longrightarrow>
   scan_cols linkage cs M row cols nearest =
     Inr (fold (cand_step js_less f) (map (Pair row) cols) nearest)"
  by (induction cols arbitrary: nearest) (simp_all add: cand_step_def)

lemma scan_rows_fold:
  "\<forall>row\<in>set rows. \<forall>col\<in>set [row + 1 ..< length cs].
       linkage (indexes (cs ! row)) (indexes (cs ! col)) M = Inr (f (row, col)) \<Longrightarrow>
   scan_rows linkage cs M rows nearest =
     Inr (fold (cand_step js_less f)
            (concat (map (\<lambda>row. map (Pair row) [row + 1 ..< length cs]) rows)) nearest)"
proof (induction rows arbitrary: nearest)
  case Nil
  then show ?case by simp
next
  case (Cons row rows)
  from Cons.prems
  have "scan_cols linkage cs M row [row + 1 ..< length cs] nearest =
          Inr (fold (cand_step js_less f) (map (Pair row) [row + 1 ..< length cs]) nearest)"
    by (intro scan_cols_fold) simp
  with Cons show ?case by simp
qed

lemma find_nearest_fold:
  assumes "\<forall>p\<in>set (pairs (length cs)).
             linkage (indexes (cs ! fst p)) (indexes (cs ! snd p)) M = Inr (f p)"
  shows "find_nearest linkage cs M = Inr (fold (cand_step js_less f) (pairs (length cs)) (PosInf, 0, 0))"
  unfolding find_nearest_def pairs_def
  by (rule scan_rows_fold) (use assms in \<open>auto simp: set_pairs\<close>)

lemma fold_cand_step_first:
  assumes strict: "strict_order better"
  shows "(fold (cand_step better f) ps cand = cand \<and> (\<forall>q\<in>set ps. \<not> better (f q) (fst cand))) \<or>
   (\<exists>ps1 p ps2. ps = ps1 @ p # ps2 \<and> fold (cand_step better f) ps cand = (f p, p) \<and>
        better (f p) (fst cand) \<and>
        (\<forall>q\<in>set ps1. \<not> better (f q) (f p) \<and> f q \<noteq> f p) \<and>
        (\<forall>q\<in>set ps2. \<not> better (f q) (f p)))"
proof (induction ps rule: rev_induct)
  case Nil
  then show ?case by simp
next
  case (snoc x ps)
  have irrefl: "\<not> better x x" for x
    using strict by (simp add: strict_order_def)
  have trans: "better x y \<Longrightarrow> better y z \<Longrightarrow> better x z" for x y z
    using strict unfolding strict_order_def by blast
  let ?res = "fold (cand_step better f) ps cand"
  show ?case
  proof (cases "better (f x) (fst ?res)")
    case True
    have lt: "better (f x) (fst cand)"
      using snoc True by (auto dest: trans)
    have "\<forall>q\<in>set ps. \<not> better (f q) (fst ?res)"
      using snoc by (auto simp: irrefl)
    then have "\<forall>q\<in>set ps. \<not> better (f q) (f x) \<and> f q \<noteq> f x"
      using True by (auto dest: trans)
    moreover have "fold (cand_step better f) (ps @ [x]) cand = (f x, x)"
      using True by (simp add: cand_step_def)
    ultimately show ?thesis
      using lt by (intro disjI2 exI [of _ ps] exI [of _ x] exI [of _ "[]"]) simp
  next
    case False
    then have same: "fold (cand_step better f) (ps @ [x]) cand = ?res"
      by (simp add: cand_step_def)
    from snoc show ?thesis
    proof
      assume "?res = cand \<and> (\<forall>q\<in>set ps. \<not> better (f q) (fst cand))"
      then show ?thesis using False same by auto
    next
      assume "\<exists>ps1 p ps2. ps = ps1 @ p # ps2 \<and> ?res = (f p, p) \<and>
        better (f p) (fst cand) \<and>
        (\<forall>q\<in>set ps1. \<not> better (f q) (f p) \<and> f q \<noteq> f p) \<and>
        (\<forall>q\<in>set ps2. \<not> better (f q) (f p))"
      then obtain ps1 p ps2 where h: "ps = ps1 @ p # ps2" "?res = (f p, p)"
        "better (f p) (fst cand)"
        "\<forall>q\<in>set ps1. \<not> better (f q) (f p) \<and> f q \<noteq> f p"
        "\<forall>q\<in>set ps2. \<not> better (f q) (f p)"
        by blast
      have "ps @ [x] = ps1 @ p # (ps2 @ [x])" using h(1) by simp
      moreover have "\<forall>q\<in>set (ps2 @ [x]). \<not> better (f q) (f p)"
        using h(2,5) False by auto
      ultimately show ?thesis
        using h same by (intro disjI2 exI [of _ ps1] exI [of _ p] exI [of _ "ps2 @ [x]"]) simp
    qed
  qed
qed

section \<open>One merge\<close>

lemma splice1_nth: "i < length xs \<Longrightarrow> xs = take i xs @ xs ! i # drop (Suc i) xs"
  by (simp add: id_take_nth_drop)

lemma splice_two:
  assumes "r < c" and "c < length cs"
  shows "\<exists>A B C. cs = A @ cs ! r # B @ cs ! c # C \<and> splice1 r (splice1 c cs) = A @ B @ C"
proof -
  let ?A = "take r cs" and ?B = "take (c - Suc r) (drop (Suc r) cs)" and ?C = "drop (Suc c) cs"
  have 1: "cs = take c cs @ cs ! c # ?C"
    using assms by (simp add: id_take_nth_drop)
  have 2: "take c cs = ?A @ cs ! r # ?B"
  proof -
    have "take c cs = take r (take c cs) @ take c cs ! r # drop (Suc r) (take c cs)"
      using assms by (intro id_take_nth_drop) simp
    then show ?thesis using assms by (simp add: min_def drop_take)
  qed
  have "splice1 c cs = take c cs @ ?C" by (simp add: splice1_def)
  then have "splice1 c cs = ?A @ cs ! r # ?B @ ?C" using 2 by simp
  moreover have "length ?A = r" using assms by simp
  ultimately have "splice1 r (splice1 c cs) = ?A @ ?B @ ?C"
    by (simp add: splice1_def)
  moreover have "cs = ?A @ cs ! r # ?B @ cs ! c # ?C" using 1 2 by simp
  ultimately show ?thesis by blast
qed

lemma merge_nearest_step:
  assumes "r < c" and "c < length cs" and "is_partition n (map indexes cs)"
  shows "\<exists>cs'. merge_nearest cs (d, r, c) = Inr cs' \<and> length cs' = length cs - 1 \<and>
           is_partition n (map indexes cs') \<and>
           last cs' = Cluster (indexes (cs ! r) @ indexes (cs ! c)) d [cs ! r, cs ! c]"
proof -
  obtain A B C where cs: "cs = A @ cs ! r # B @ cs ! c # C"
    and sp: "splice1 r (splice1 c cs) = A @ B @ C"
    using splice_two [OF assms(1,2)] by blast
  let ?new = "Cluster (indexes (cs ! r) @ indexes (cs ! c)) d [cs ! r, cs ! c]"
  have m: "merge_nearest cs (d, r, c) = Inr (A @ B @ C @ [?new])"
    using assms(1,2) sp by (simp add: merge_nearest_def max_def min_def)
  have len: "length cs = length A + length B + length C + 2"
    by (subst cs) simp
  have "is_partition n (map indexes (A @ cs ! r # B @ cs ! c # C))"
    using assms(3) cs by simp
  then have "is_partition n (map indexes (A @ B @ C @ [?new]))"
    by (auto simp: is_partition_def)
  then show ?thesis using m len by simp
qed

lemma partition_member:
  assumes "is_partition n (map indexes cs)" and "i < length cs"
  shows "indexes (cs ! i) \<noteq> [] \<and> set (indexes (cs ! i)) \<subseteq> {..<n}"
proof -
  have "indexes (cs ! i) \<in> set (map indexes cs)" using assms(2) by simp
  then show ?thesis using assms(1) unfolding is_partition_def by (metis UN_I set_concat subsetI)
qed

lemma find_nearest_pair:
  assumes fin: "finite_linkage linkage M n"
    and part: "is_partition n (map indexes cs)"
    and two: "2 \<le> length cs"
  shows "\<exists>d r c ps1 ps2. find_nearest linkage cs M = Inr (d, r, c) \<and>
           pairs (length cs) = ps1 @ (r, c) # ps2 \<and>
           linkage (indexes (cs ! r)) (indexes (cs ! c)) M = Inr d \<and>
           js_less d PosInf \<and>
           (\<forall>(r', c')\<in>set (pairs (length cs)). \<forall>v.
               linkage (indexes (cs ! r')) (indexes (cs ! c')) M = Inr v \<longrightarrow> \<not> js_less v d) \<and>
           (\<forall>(r', c')\<in>set ps1. linkage (indexes (cs ! r')) (indexes (cs ! c')) M \<noteq> Inr d)"
proof -
  define f where "f p = projr (linkage (indexes (cs ! fst p)) (indexes (cs ! snd p)) M)" for p
  have val: "linkage (indexes (cs ! fst p)) (indexes (cs ! snd p)) M = Inr (f p) \<and>
             js_less (f p) PosInf" if "p \<in> set (pairs (length cs))" for p
  proof -
    from that have "fst p < length cs" "snd p < length cs"
      by (auto simp: set_pairs)
    then have "indexes (cs ! fst p) \<noteq> [] \<and> set (indexes (cs ! fst p)) \<subseteq> {..<n}"
      "indexes (cs ! snd p) \<noteq> [] \<and> set (indexes (cs ! snd p)) \<subseteq> {..<n}"
      using part by (auto dest: partition_member)
    then obtain v where "linkage (indexes (cs ! fst p)) (indexes (cs ! snd p)) M = Inr v"
      "js_less v PosInf"
      using fin unfolding finite_linkage_def by blast
    then show ?thesis by (simp add: f_def)
  qed
  then have eq: "find_nearest linkage cs M =
      Inr (fold (cand_step js_less f) (pairs (length cs)) (PosInf, 0, 0))"
    by (intro find_nearest_fold) simp
  have "(0, 1) \<in> set (pairs (length cs))" using two by (simp add: set_pairs)
  then have "\<exists>q\<in>set (pairs (length cs)). js_less (f q) (fst (PosInf, 0::nat, 0::nat))"
    using val by auto
  with fold_cand_step_first [OF strict_order_js_less, of f "pairs (length cs)" "(PosInf, 0, 0)"]
  obtain ps1 p ps2 where h: "pairs (length cs) = ps1 @ p # ps2"
      "fold (cand_step js_less f) (pairs (length cs)) (PosInf, 0, 0) = (f p, p)"
      "\<forall>q\<in>set ps1. \<not> js_less (f q) (f p) \<and> f q \<noteq> f p"
      "\<forall>q\<in>set ps2. \<not> js_less (f q) (f p)"
    by blast
  have pin: "p \<in> set (pairs (length cs))" using h(1) by simp
  have sub1: "set ps1 \<subseteq> set (pairs (length cs))" using h(1) by auto
  have all: "\<forall>q\<in>set (pairs (length cs)). \<not> js_less (f q) (f p)"
    using h(1,3,4) by (auto simp: js_less_irrefl)
  show ?thesis
  proof (intro exI conjI)
    show "find_nearest linkage cs M = Inr (f p, fst p, snd p)" using eq h(2) by simp
    show "pairs (length cs) = ps1 @ (fst p, snd p) # ps2" using h(1) by simp
    show "linkage (indexes (cs ! fst p)) (indexes (cs ! snd p)) M = Inr (f p)"
      using val [OF pin] by simp
    show "js_less (f p) PosInf" using val [OF pin] by simp
    show "\<forall>(r', c')\<in>set (pairs (length cs)). \<forall>v.
               linkage (indexes (cs ! r')) (indexes (cs ! c')) M = Inr v \<longrightarrow> \<not> js_less v (f p)"
      using all val by fastforce
    show "\<forall>(r', c')\<in>set ps1. linkage (indexes (cs ! r')) (indexes (cs ! c')) M \<noteq> Inr (f p)"
      using h(3) val sub1 by fastforce
  qed
qed

section \<open>One merge iteration\<close>

lemma averageDistance_finite_linkage:
  assumes "length R = n" and "\<forall>row\<in>set R. length row = n"
  shows "finite_linkage (averageDistance exact) (map (map Num) R) n"
  unfolding finite_linkage_def
proof (intro allI impI)
  fix a b :: "nat list"
  assume h: "a \<noteq> [] \<and> b \<noteq> [] \<and> set a \<subseteq> {..<n} \<and> set b \<subseteq> {..<n}"
  have "\<forall>x\<in>set a. x < length R \<and> (\<forall>y\<in>set b. y < length (R ! x))"
    using h assms by (auto simp: subset_iff)
  then have "averageDistance_outer exact (map (map Num) R) a b (Num 0) =
      Inr (Num (0 + (\<Sum>x\<leftarrow>a. \<Sum>y\<leftarrow>b. R ! x ! y)))"
    by (rule averageDistance_outer_Num)
  then show "\<exists>v. averageDistance exact a b (map (map Num) R) = Inr v \<and> js_less v PosInf"
    using h by (simp add: averageDistance_def)
qed

text \<open>
  One merge iteration, on a working collection of at least two clusters that partitions
  \<open>{0, ..., n - 1}\<close> and for a linkage function that is finite on the matrix: the scan
  returns a pair \<open>row < col\<close> whose linkage value \<open>d\<close> no linkage value of any pair is
  below, and which is the first pair of the row-major order with that value; the merge
  removes the two clusters and appends the cluster with the indexes of the row cluster
  followed by those of the column cluster, the height \<open>d\<close> and the two clusters as
  children.
\<close>

theorem merge_chooses_first_minimum_pair:
  assumes "finite_linkage linkage M n" and "is_partition n (map indexes cs)"
    and "2 \<le> length cs"
  shows "\<exists>d r c ps1 ps2. find_nearest linkage cs M = Inr (d, r, c) \<and>
           r < c \<and> c < length cs \<and>
           pairs (length cs) = ps1 @ (r, c) # ps2 \<and>
           linkage (indexes (cs ! r)) (indexes (cs ! c)) M = Inr d \<and>
           (\<forall>(r', c')\<in>set (pairs (length cs)). \<forall>v.
               linkage (indexes (cs ! r')) (indexes (cs ! c')) M = Inr v \<longrightarrow> \<not> js_less v d) \<and>
           (\<forall>(r', c')\<in>set ps1. linkage (indexes (cs ! r')) (indexes (cs ! c')) M \<noteq> Inr d) \<and>
           merge_nearest cs (d, r, c) =
             Inr (splice1 r (splice1 c cs) @
                  [Cluster (indexes (cs ! r) @ indexes (cs ! c)) d [cs ! r, cs ! c]])"
proof -
  obtain d r c ps1 ps2 where h: "find_nearest linkage cs M = Inr (d, r, c)"
    "pairs (length cs) = ps1 @ (r, c) # ps2"
    "linkage (indexes (cs ! r)) (indexes (cs ! c)) M = Inr d"
    "\<forall>(r', c')\<in>set (pairs (length cs)). \<forall>v.
        linkage (indexes (cs ! r')) (indexes (cs ! c')) M = Inr v \<longrightarrow> \<not> js_less v d"
    "\<forall>(r', c')\<in>set ps1. linkage (indexes (cs ! r')) (indexes (cs ! c')) M \<noteq> Inr d"
    using find_nearest_pair [OF assms] by blast
  have "(r, c) \<in> set (pairs (length cs))" using h(2) by simp
  then have rc: "r < c" "c < length cs" by (auto simp: set_pairs)
  then have "merge_nearest cs (d, r, c) =
             Inr (splice1 r (splice1 c cs) @
                  [Cluster (indexes (cs ! r) @ indexes (cs ! c)) d [cs ! r, cs ! c]])"
    by (simp add: merge_nearest_def max_def min_def)
  with h rc show ?thesis by blast
qed

theorem merge_chooses_first_minimum_pair_witness:
  "finite_linkage (averageDistance exact) (map (map Num) [[0, 4, 4], [4, 0, 4], [4, 4, 0]]) 3 \<and>
   is_partition 3 (map indexes [Cluster [0] (Num 0) [], Cluster [1] (Num 0) [], Cluster [2] (Num 0) []]) \<and>
   find_nearest (averageDistance exact)
     [Cluster [0] (Num 0) [], Cluster [1] (Num 0) [], Cluster [2] (Num 0) []]
     (map (map Num) [[0, 4, 4], [4, 0, 4], [4, 4, 0]]) = Inr (Num 4, 0, 1)"
proof -
  let ?R = "[[0, 4, 4], [4, 0, 4], [4, 4, 0 :: real]]"
  let ?cs = "[Cluster [0] (Num 0) [], Cluster [1] (Num 0) [], Cluster [2] (Num 0) []]"
  have fin: "finite_linkage (averageDistance exact) (map (map Num) ?R) 3"
    by (rule averageDistance_finite_linkage) simp_all
  have part: "is_partition 3 (map indexes ?cs)"
    by (auto simp: is_partition_def)
  have two: "2 \<le> length ?cs" by simp
  from merge_chooses_first_minimum_pair [OF fin part two]
  obtain d r c ps1 ps2 where h: "find_nearest (averageDistance exact) ?cs (map (map Num) ?R) = Inr (d, r, c)"
    "pairs (length ?cs) = ps1 @ (r, c) # ps2"
    "averageDistance exact (indexes (?cs ! r)) (indexes (?cs ! c)) (map (map Num) ?R) = Inr d"
    "\<forall>(r', c')\<in>set ps1.
        averageDistance exact (indexes (?cs ! r')) (indexes (?cs ! c')) (map (map Num) ?R) \<noteq> Inr d"
    by blast
  have v: "averageDistance exact (indexes (?cs ! r')) (indexes (?cs ! c')) (map (map Num) ?R) = Inr (Num 4)"
    if "(r', c') \<in> set (pairs (length ?cs))" for r' c'
    using that by (auto simp: pairs_3 averageDistance_def js_nth_def)
  have "(r, c) \<in> set (pairs (length ?cs))" using h(2) by simp
  then have d: "d = Num 4" using v h(3) by fastforce
  have "ps1 = []"
  proof (cases ps1)
    case Nil
    then show ?thesis .
  next
    case (Cons q qs)
    then have "q \<in> set (pairs (length ?cs))" "q \<in> set ps1" using h(2) by simp_all
    then show ?thesis using v [of "fst q" "snd q"] h(4) d by fastforce
  qed
  then have "(r, c) = (0, 1)" using h(2) by (simp add: pairs_3)
  then show ?thesis using fin part h(1) d by simp
qed

section \<open>The merge loop\<close>

lemma updateProgress_merge:
  "iteration < n \<Longrightarrow>
   updateProgress rnd (Num 1) (js_div rnd (Num (real (iteration + 1))) (Num (real n))) onProgress reported
     @ merge_progress rnd onProgress n (Suc iteration) =
   reported @ merge_progress rnd onProgress n iteration"
  by (simp add: updateProgress_def merge_progress_def upt_conv_Cons)

lemma merge_loop_last:
  "iteration < n \<Longrightarrow> int n - 1 \<le> int iteration \<Longrightarrow>
   merge_loop rnd linkage M onProgress n iteration cs slices reported =
     (updateProgress rnd (Num 1) (js_div rnd (Num (real (iteration + 1))) (Num (real n)))
        onProgress reported,
      Inr (cs, slices @ [map indexes cs]))"
  by (subst merge_loop.simps) (simp add: Let_def)

lemma merge_loop_step:
  "iteration < n \<Longrightarrow> \<not> int n - 1 \<le> int iteration \<Longrightarrow>
   find_nearest linkage cs M = Inr nearest \<Longrightarrow> merge_nearest cs nearest = Inr cs' \<Longrightarrow>
   merge_loop rnd linkage M onProgress n iteration cs slices reported =
     merge_loop rnd linkage M onProgress n (iteration + 1) cs' (slices @ [map indexes cs])
       (updateProgress rnd (Num 1) (js_div rnd (Num (real (iteration + 1))) (Num (real n)))
          onProgress reported)"
  by (subst merge_loop.simps) (simp add: Let_def)

lemma merge_loop_runs:
  assumes fin: "finite_linkage linkage M n"
  shows "iteration < n \<Longrightarrow> length cs = n - iteration \<Longrightarrow> is_partition n (map indexes cs) \<Longrightarrow>
    \<exists>c new. merge_loop rnd linkage M onProgress n iteration cs slices reported =
               (reported @ merge_progress rnd onProgress n iteration, Inr ([c], slices @ new)) \<and>
            length new = n - iteration \<and> new ! 0 = map indexes cs \<and> last new = [indexes c] \<and>
            (\<forall>j<n - iteration. length (new ! j) = n - iteration - j \<and> is_partition n (new ! j))"
proof (induction "n - iteration" arbitrary: iteration cs slices reported)
  case 0
  then show ?case by simp
next
  case (Suc k)
  let ?rep = "updateProgress rnd (Num 1) (js_div rnd (Num (real (iteration + 1))) (Num (real n)))
                onProgress reported"
  show ?case
  proof (cases "k = 0")
    case True
    then have it: "int n - 1 \<le> int iteration" and len1: "length cs = 1"
      using Suc.hyps(2) Suc.prems by auto
    then obtain c where c: "cs = [c]" by (cases cs) auto
    have "Suc iteration = n" using Suc.hyps(2) True by simp
    then have "merge_progress rnd onProgress n (Suc iteration) = []"
      by (simp add: merge_progress_def)
    then have rep: "?rep = reported @ merge_progress rnd onProgress n iteration"
      using updateProgress_merge [of iteration n rnd onProgress reported] Suc.prems(1) by simp
    have "merge_loop rnd linkage M onProgress n iteration cs slices reported =
            (?rep, Inr (cs, slices @ [map indexes cs]))"
      using Suc.prems(1) it by (rule merge_loop_last)
    moreover have "n - iteration = 1" using Suc.hyps(2) True by simp
    ultimately show ?thesis
      using c rep Suc.prems(3)
      by (intro exI [of _ c] exI [of _ "[map indexes cs]"]) simp
  next
    case False
    then have it: "\<not> int n - 1 \<le> int iteration" and two: "2 \<le> length cs"
      using Suc.hyps(2) Suc.prems by auto
    obtain d r c where fn: "find_nearest linkage cs M = Inr (d, r, c)"
      and pr: "(r, c) \<in> set (pairs (length cs))"
      using find_nearest_pair [OF fin Suc.prems(3) two] by fastforce
    then have rc: "r < c" "c < length cs" by (auto simp: set_pairs)
    obtain cs' where mn: "merge_nearest cs (d, r, c) = Inr cs'"
      and len': "length cs' = length cs - 1"
      and part': "is_partition n (map indexes cs')"
      using merge_nearest_step [OF rc Suc.prems(3)] by blast
    have step: "merge_loop rnd linkage M onProgress n iteration cs slices reported =
                merge_loop rnd linkage M onProgress n (iteration + 1) cs'
                  (slices @ [map indexes cs]) ?rep"
      using Suc.prems(1) it fn mn by (rule merge_loop_step)
    have k: "k = n - Suc iteration" using Suc.hyps(2) by simp
    have lt: "Suc iteration < n" using False Suc.hyps(2) by simp
    have l2: "length cs' = n - Suc iteration" using len' Suc.prems(2) by simp
    from Suc.hyps(1) [OF k lt l2 part', of "slices @ [map indexes cs]" ?rep]
    obtain c0 new where run: "merge_loop rnd linkage M onProgress n (Suc iteration) cs'
          (slices @ [map indexes cs]) ?rep =
          (?rep @ merge_progress rnd onProgress n (Suc iteration),
           Inr ([c0], (slices @ [map indexes cs]) @ new))"
      and new: "length new = n - Suc iteration" "last new = [indexes c0]"
        "\<forall>j<n - Suc iteration. length (new ! j) = n - Suc iteration - j \<and>
            is_partition n (new ! j)"
      by blast
    let ?new = "map indexes cs # new"
    have ne: "new \<noteq> []" using new(1) lt by auto
    have all: "\<forall>j<n - iteration. length (?new ! j) = n - iteration - j \<and>
                 is_partition n (?new ! j)"
    proof (intro allI impI)
      fix j assume j: "j < n - iteration"
      show "length (?new ! j) = n - iteration - j \<and> is_partition n (?new ! j)"
      proof (cases j)
        case 0
        then show ?thesis using Suc.prems by simp
      next
        case (Suc j')
        then have "j' < n - Suc iteration" using j by simp
        then show ?thesis using new(3) Suc by simp
      qed
    qed
    have "merge_loop rnd linkage M onProgress n iteration cs slices reported =
            (reported @ merge_progress rnd onProgress n iteration, Inr ([c0], slices @ ?new))"
      using step run updateProgress_merge [OF Suc.prems(1), of rnd onProgress reported] by simp
    moreover have "length ?new = n - iteration" using new(1) lt by simp
    moreover have "last ?new = [indexes c0]" using new(2) ne by simp
    ultimately show ?thesis using all
      by (intro exI [of _ c0] exI [of _ ?new]) simp
  qed
qed

section \<open>The partition table\<close>

lemma singletons_partition: "is_partition n (map (\<lambda>i. [i]) [0 ..< n])"
proof -
  have "concat (map (\<lambda>i. [i]) [0 ..< n]) = [0 ..< n]"
    by (induction n) simp_all
  then show ?thesis by (auto simp: is_partition_def)
qed

lemma clusterData_runs:
  assumes "data \<noteq> []"
    and "finite_linkage linkage (distance_matrix distance data) (length data)"
  shows "\<exists>c new. snd (clusterData rnd distance linkage onProgress data) =
           Inr \<lparr>res_clusters = c, res_distances = distance_matrix distance data,
                res_order = indexes c, res_clustersGivenK = [] # rev new\<rparr> \<and>
           length new = length data \<and> new ! 0 = map (\<lambda>i. [i]) [0 ..< length data] \<and>
           last new = [indexes c] \<and>
           (\<forall>j<length data. length (new ! j) = length data - j \<and>
                is_partition (length data) (new ! j))"
proof -
  let ?n = "length data"
  let ?cs = "map (\<lambda>index. Cluster [index] (Num 0) []) [0 ..< ?n]"
  let ?rep = "fold (\<lambda>index. updateProgress rnd (Num 0)
                (js_div rnd (Num (real index)) (Num (real_of_int (int ?n - 1)))) onProgress)
              [0 ..< ?n] []"
  have ix: "map indexes ?cs = map (\<lambda>i. [i]) [0 ..< ?n]" by simp
  have "0 < ?n" using assms(1) by simp
  moreover have "length ?cs = ?n - 0" by simp
  moreover have "is_partition ?n (map indexes ?cs)"
    unfolding ix by (rule singletons_partition)
  ultimately obtain c new where run:
    "merge_loop rnd linkage (distance_matrix distance data) onProgress ?n 0 ?cs [] ?rep =
       (?rep @ merge_progress rnd onProgress ?n 0, Inr ([c], [] @ new))"
    and new: "length new = ?n - 0" "new ! 0 = map indexes ?cs" "last new = [indexes c]"
      "\<forall>j<?n - 0. length (new ! j) = ?n - 0 - j \<and> is_partition ?n (new ! j)"
    using merge_loop_runs [OF assms(2), of 0 ?cs rnd onProgress "[]" ?rep] by blast
  have "snd (clusterData rnd distance linkage onProgress data) =
           Inr \<lparr>res_clusters = c, res_distances = distance_matrix distance data,
                res_order = indexes c, res_clustersGivenK = [] # rev new\<rparr>"
    using run by (simp add: clusterData_def Let_def)
  then show ?thesis using new unfolding ix by (intro exI [of _ c] exI [of _ new]) simp
qed

text \<open>
  The partition table. For at least one record and a linkage function that is finite on
  the distance matrix, \<open>clusterData\<close> returns, and the table it returns has
  \<open>N + 1\<close> entries: the entry \<open>0\<close> is empty, every entry \<open>K\<close> from \<open>1\<close> to \<open>N\<close>
  holds \<open>K\<close> index lists that partition \<open>{0, ..., N - 1}\<close>, the entry \<open>N\<close> is the
  \<open>N\<close> singletons in order, and the entry \<open>1\<close> is the single list \<open>order\<close>, the
  indexes of the root.
\<close>

theorem clusterData_partition_table:
  assumes "data \<noteq> []"
    and "finite_linkage linkage (distance_matrix distance data) (length data)"
  shows "\<exists>r. snd (clusterData rnd distance linkage onProgress data) = Inr r \<and>
      res_distances r = distance_matrix distance data \<and>
      res_order r = indexes (res_clusters r) \<and>
      length (res_clustersGivenK r) = length data + 1 \<and>
      res_clustersGivenK r ! 0 = [] \<and>
      (\<forall>K. 1 \<le> K \<and> K \<le> length data \<longrightarrow>
          length (res_clustersGivenK r ! K) = K \<and>
          is_partition (length data) (res_clustersGivenK r ! K)) \<and>
      res_clustersGivenK r ! length data = map (\<lambda>i. [i]) [0 ..< length data] \<and>
      res_clustersGivenK r ! 1 = [res_order r]"
proof -
  let ?n = "length data"
  obtain c new where r: "snd (clusterData rnd distance linkage onProgress data) =
           Inr \<lparr>res_clusters = c, res_distances = distance_matrix distance data,
                res_order = indexes c, res_clustersGivenK = [] # rev new\<rparr>"
    and new: "length new = ?n" "new ! 0 = map (\<lambda>i. [i]) [0 ..< ?n]" "last new = [indexes c]"
      "\<forall>j<?n. length (new ! j) = ?n - j \<and> is_partition ?n (new ! j)"
    using clusterData_runs [OF assms] by blast
  have pos: "0 < ?n" using assms(1) by simp
  have nth: "([] # rev new) ! K = new ! (?n - K)" if "1 \<le> K" "K \<le> ?n" for K
  proof -
    from that(1) obtain K' where K: "K = Suc K'" by (cases K) simp_all
    then have "K' < length new" using that(2) new(1) by simp
    then have "rev new ! K' = new ! (length new - Suc K')" by (rule rev_nth)
    then show ?thesis using K new(1) by simp
  qed
  have levels: "length (([] # rev new) ! K) = K \<and> is_partition ?n (([] # rev new) ! K)"
    if "1 \<le> K" "K \<le> ?n" for K
  proof -
    have "?n - K < ?n" using that by simp
    then have "length (new ! (?n - K)) = ?n - (?n - K) \<and> is_partition ?n (new ! (?n - K))"
      using new(4) by blast
    then show ?thesis using nth [OF that] that by simp
  qed
  have top: "([] # rev new) ! ?n = map (\<lambda>i. [i]) [0 ..< ?n]"
    using nth [of ?n] pos new(2) by simp
  have "new \<noteq> []" using new(1) pos by auto
  then have "last new = new ! (?n - 1)" using new(1) by (simp add: last_conv_nth)
  then have one: "([] # rev new) ! 1 = [indexes c]"
    using nth [of 1] pos new(3) by simp
  show ?thesis
    using r new(1) levels top one
    by (intro exI [of _ "\<lparr>res_clusters = c, res_distances = distance_matrix distance data,
                res_order = indexes c, res_clustersGivenK = [] # rev new\<rparr>"]) simp
qed

section \<open>The elbow selector: results\<close>









theorem clusterData_partition_table_witness:
  "[0, 1, 5 :: real] \<noteq> [] \<and>
   finite_linkage (averageDistance exact) (distance_matrix (\<lambda>a b. Num \<bar>a - b\<bar>) [0, 1, 5 :: real])
     (length [0, 1, 5 :: real]) \<and>
   (\<exists>r. snd (clusterData exact (\<lambda>a b. Num \<bar>a - b\<bar>) (averageDistance exact) True [0, 1, 5 :: real]) = Inr r \<and>
        length (res_clustersGivenK r) = 4 \<and>
        length (res_clustersGivenK r ! 2) = 2 \<and>
        is_partition (length [0, 1, 5 :: real]) (res_clustersGivenK r ! 2) \<and>
        res_clustersGivenK r ! 1 = [res_order r])"
proof -
  let ?data = "[0, 1, 5 :: real]"
  let ?d = "\<lambda>a b :: real. Num \<bar>a - b\<bar>"
  have m: "distance_matrix ?d ?data = map (map Num) [[0, 1, 5], [1, 0, 4], [5, 4, 0]]"
    by (simp add: distance_matrix_def)
  have fin: "finite_linkage (averageDistance exact) (distance_matrix ?d ?data) (length ?data)"
    unfolding m by (rule averageDistance_finite_linkage) simp_all
  have ne: "?data \<noteq> []" by simp
  from clusterData_partition_table [OF ne fin, of exact True]
  obtain r where r: "snd (clusterData exact ?d (averageDistance exact) True ?data) = Inr r"
    "length (res_clustersGivenK r) = length ?data + 1"
    "\<forall>K. 1 \<le> K \<and> K \<le> length ?data \<longrightarrow>
          length (res_clustersGivenK r ! K) = K \<and>
          is_partition (length ?data) (res_clustersGivenK r ! K)"
    "res_clustersGivenK r ! 1 = [res_order r]"
    by blast
  from r(3) have "length (res_clustersGivenK r ! 2) = 2 \<and>
      is_partition (length ?data) (res_clustersGivenK r ! 2)"
    by (rule allE [of _ 2]) simp
  then show ?thesis using fin r(1,2,4) by simp
qed

section \<open>The progress values\<close>

lemma fold_updateProgress:
  "fold (\<lambda>index. updateProgress rnd a (g index) True) xs reported =
     reported @ map (\<lambda>index. js_add rnd (js_div rnd a (Num 2)) (js_div rnd (g index) (Num 2))) xs"
  by (induction xs arbitrary: reported) (simp_all add: updateProgress_def)

lemma clusterData_reported:
  assumes "2 \<le> length data"
    and "finite_linkage linkage (distance_matrix distance data) (length data)"
  shows "fst (clusterData exact distance linkage True data) = map Num (progress_values (length data))"
proof -
  let ?n = "length data"
  let ?cs = "map (\<lambda>index. Cluster [index] (Num 0) []) [0 ..< ?n]"
  let ?rep = "fold (\<lambda>index. updateProgress exact (Num 0)
                (js_div exact (Num (real index)) (Num (real_of_int (int ?n - 1)))) True)
              [0 ..< ?n] []"
  have n1: "real_of_int (int ?n - 1) \<noteq> 0" using assms(1) by simp
  have rep: "?rep = map (\<lambda>i. Num (real i / (real ?n - 1) / 2)) [0 ..< ?n]"
    unfolding fold_updateProgress using n1 by simp
  have ix: "map indexes ?cs = map (\<lambda>i. [i]) [0 ..< ?n]" by simp
  have "0 < ?n" using assms(1) by linarith
  moreover have "length ?cs = ?n - 0" by simp
  moreover have "is_partition ?n (map indexes ?cs)"
    unfolding ix by (rule singletons_partition)
  ultimately obtain c new where run:
    "merge_loop exact linkage (distance_matrix distance data) True ?n 0 ?cs [] ?rep =
       (?rep @ merge_progress exact True ?n 0, Inr ([c], [] @ new))"
    using merge_loop_runs [OF assms(2), of 0 ?cs exact True "[]" ?rep] by blast
  have "fst (clusterData exact distance linkage True data) = ?rep @ merge_progress exact True ?n 0"
    using run by (simp add: clusterData_def Let_def)
  moreover have "data \<noteq> []" using assms(1) by auto
  ultimately show ?thesis
    unfolding rep by (simp add: progress_values_def merge_progress_def comp_def)
qed

lemma progress_values_first:
  "i < n \<Longrightarrow> progress_values n ! i = real i / (real n - 1) / 2"
  by (simp add: progress_values_def nth_append)

lemma progress_values_second:
  assumes "n \<le> i" and "i < 2 * n"
  shows "progress_values n ! i = 1 / 2 + real (i - n + 1) / real n / 2"
proof -
  have k: "i - n < n" using assms by linarith
  have "progress_values n ! i =
          map (\<lambda>i. 1 / 2 + real (i + 1) / real n / 2) [0 ..< n] ! (i - n)"
    using assms(1) by (simp add: progress_values_def nth_append)
  also have "\<dots> = 1 / 2 + real (i - n + 1) / real n / 2"
    using k by (simp only: nth_map length_upt minus_nat.diff_0 nth_upt add_0)
  finally show ?thesis .
qed

lemma progress_values_length: "length (progress_values n) = 2 * n"
  by (simp add: progress_values_def)

lemma progress_first_half:
  assumes "2 \<le> n" and "i < n"
  shows "0 \<le> real i / (real n - 1) / 2 \<and> real i / (real n - 1) / 2 \<le> 1 / 2"
proof -
  have "real i \<le> real n - 1" using assms by (simp add: of_nat_diff)
  moreover have "0 < real n - 1" using assms by simp
  ultimately show ?thesis by (simp add: field_simps)
qed

lemma progress_second_half:
  assumes "i < n"
  shows "1 / 2 < 1 / 2 + real (i + 1) / real n / 2 \<and> 1 / 2 + real (i + 1) / real n / 2 \<le> 1"
proof -
  have "real (i + 1) \<le> real n" using assms by simp
  moreover have "0 < real n" using assms by simp
  ultimately show ?thesis by (simp add: field_simps)
qed

lemma progress_values_first_range:
  assumes "2 \<le> n" and "i < n"
  shows "0 \<le> progress_values n ! i \<and> progress_values n ! i \<le> 1 / 2"
  unfolding progress_values_first [OF assms(2)] using assms by (rule progress_first_half)

lemma progress_values_second_range:
  assumes "n \<le> i" and "i < 2 * n"
  shows "1 / 2 < progress_values n ! i \<and> progress_values n ! i \<le> 1"
proof -
  have "i - n < n" using assms by linarith
  then show ?thesis
    unfolding progress_values_second [OF assms] by (rule progress_second_half)
qed

lemma progress_values_increasing:
  assumes "2 \<le> n" and "i < j" and "j < 2 * n"
  shows "progress_values n ! i < progress_values n ! j"
proof -
  have pos: "0 < real n - 1" "0 < real n" using assms(1) by simp_all
  consider "j < n" | "i < n" "n \<le> j" | "n \<le> i" by linarith
  then show ?thesis
  proof cases
    case 1
    then have i: "i < n" using assms(2) by simp
    have "real i / (real n - 1) / 2 < real j / (real n - 1) / 2"
      using assms(2) pos by (simp add: divide_strict_right_mono)
    then show ?thesis
      unfolding progress_values_first [OF 1] progress_values_first [OF i] .
  next
    case 2
    have "progress_values n ! i \<le> 1 / 2"
      using progress_values_first_range [OF assms(1) 2(1)] by simp
    moreover have "1 / 2 < progress_values n ! j"
      using progress_values_second_range [OF 2(2) assms(3)] by simp
    ultimately show ?thesis by linarith
  next
    case 3
    then have j: "n \<le> j" and i2: "i < 2 * n" using assms(2,3) by simp_all
    have "real (i - n + 1) < real (j - n + 1)" using 3 assms(2) by simp
    then have "real (i - n + 1) / real n / 2 < real (j - n + 1) / real n / 2"
      using pos by (simp add: divide_strict_right_mono)
    then have "1 / 2 + real (i - n + 1) / real n / 2 < 1 / 2 + real (j - n + 1) / real n / 2"
      by simp
    then show ?thesis
      unfolding progress_values_second [OF 3 i2] progress_values_second [OF j assms(3)] .
  qed
qed

text \<open>
  The progress values. For at least two records, a callback and a linkage function that
  is finite on the distance matrix, the values reported are real numbers: first the
  \<open>N\<close> values of the matrix phase, in \<open>[0, 1/2]\<close>, then the \<open>N\<close> values of the merge
  phase, in \<open>(1/2, 1]\<close>; the sequence is strictly increasing and ends with \<open>1\<close>.
\<close>

theorem clusterData_progress_values:
  assumes "2 \<le> length data"
    and "finite_linkage linkage (distance_matrix distance data) (length data)"
  shows "fst (clusterData exact distance linkage True data) = map Num (progress_values (length data)) \<and>
     length (progress_values (length data)) = 2 * length data \<and>
     (\<forall>i. i < length data \<longrightarrow>
        0 \<le> progress_values (length data) ! i \<and> progress_values (length data) ! i \<le> 1 / 2) \<and>
     (\<forall>i. length data \<le> i \<and> i < 2 * length data \<longrightarrow>
        1 / 2 < progress_values (length data) ! i \<and> progress_values (length data) ! i \<le> 1) \<and>
     sorted_wrt (<) (progress_values (length data)) \<and>
     last (progress_values (length data)) = 1"
proof (intro conjI allI impI)
  let ?n = "length data"
  show "fst (clusterData exact distance linkage True data) = map Num (progress_values ?n)"
    using assms by (rule clusterData_reported)
  show "length (progress_values ?n) = 2 * ?n" by (rule progress_values_length)
  show "0 \<le> progress_values ?n ! i" if "i < ?n" for i
    using progress_values_first_range [OF assms(1) that] by simp
  show "progress_values ?n ! i \<le> 1 / 2" if "i < ?n" for i
    using progress_values_first_range [OF assms(1) that] by simp
  show "1 / 2 < progress_values ?n ! i" if "?n \<le> i \<and> i < 2 * ?n" for i
    using progress_values_second_range [of ?n i] that by simp
  show "progress_values ?n ! i \<le> 1" if "?n \<le> i \<and> i < 2 * ?n" for i
    using progress_values_second_range [of ?n i] that by simp
  show "sorted_wrt (<) (progress_values ?n)"
    using progress_values_increasing [OF assms(1)]
    by (simp add: sorted_wrt_iff_nth_less progress_values_length)
  have pos: "0 < ?n" using assms(1) by linarith
  then have "progress_values ?n \<noteq> []"
    using progress_values_length [of ?n] by auto
  then have "last (progress_values ?n) = progress_values ?n ! (2 * ?n - 1)"
    by (simp add: last_conv_nth progress_values_length)
  also have "\<dots> = 1 / 2 + real (2 * ?n - 1 - ?n + 1) / real ?n / 2"
    using pos by (intro progress_values_second) linarith+
  also have "2 * ?n - 1 - ?n + 1 = ?n" using pos by linarith
  finally show "last (progress_values ?n) = 1" using pos by simp
qed

theorem clusterData_progress_values_witness:
  "2 \<le> length [0, 1, 5 :: real] \<and>
   fst (clusterData exact (\<lambda>a b. Num \<bar>a - b\<bar>) (averageDistance exact) True [0, 1, 5 :: real]) =
     map Num [0, 1 / 4, 1 / 2, 2 / 3, 5 / 6, 1]"
proof -
  let ?data = "[0, 1, 5 :: real]"
  let ?d = "\<lambda>a b :: real. Num \<bar>a - b\<bar>"
  have m: "distance_matrix ?d ?data = map (map Num) [[0, 1, 5], [1, 0, 4], [5, 4, 0]]"
    by (simp add: distance_matrix_def)
  have fin: "finite_linkage (averageDistance exact) (distance_matrix ?d ?data) (length ?data)"
    unfolding m by (rule averageDistance_finite_linkage) simp_all
  have two: "2 \<le> length ?data" by simp
  have "progress_values (length ?data) = [0, 1 / 4, 1 / 2, 2 / 3, 5 / 6, 1]"
    by (simp add: progress_values_def upt_eval)
  then show ?thesis
    using clusterData_progress_values [OF two fin] by simp
qed

section \<open>The elbow point\<close>

text \<open>
  The two-point formula is the perpendicular distance: no point of the line through \<open>p1\<close>
  and \<open>p2\<close> is nearer to \<open>p0\<close>, and one point of the line is at that distance.
\<close>

lemma point_line_distance_least:
  assumes "p1 \<noteq> p2"
  shows "point_line_distance p1 p2 p0 \<le>
           sqrt ((fst p0 - (fst p1 + t * (fst p2 - fst p1)))\<^sup>2 +
                 (snd p0 - (snd p1 + t * (snd p2 - snd p1)))\<^sup>2)"
proof -
  define dx dy where "dx = fst p2 - fst p1" and "dy = snd p2 - snd p1"
  define ux uy where "ux = fst p0 - (fst p1 + t * dx)" and "uy = snd p0 - (snd p1 + t * dy)"
  define c where "c = dy * ux - dx * uy"
  have num: "(snd p2 - snd p1) * fst p0 - (fst p2 - fst p1) * snd p0 + fst p2 * snd p1 -
             snd p2 * fst p1 = c"
    by (simp add: c_def ux_def uy_def dx_def dy_def algebra_simps)
  have "dx \<noteq> 0 \<or> dy \<noteq> 0"
    using assms by (auto simp: dx_def dy_def prod_eq_iff)
  then have dpos: "0 < dx\<^sup>2 + dy\<^sup>2"
    by (auto simp: sum_power2_gt_zero_iff)
  have "(dx\<^sup>2 + dy\<^sup>2) * (ux\<^sup>2 + uy\<^sup>2) - c\<^sup>2 = (dx * ux + dy * uy)\<^sup>2"
    by (simp add: c_def power2_eq_square algebra_simps)
  then have "c\<^sup>2 \<le> (dx\<^sup>2 + dy\<^sup>2) * (ux\<^sup>2 + uy\<^sup>2)"
    by (smt (verit) zero_le_power2)
  then have "\<bar>c\<bar>\<^sup>2 \<le> (dx\<^sup>2 + dy\<^sup>2) * (ux\<^sup>2 + uy\<^sup>2)" by simp
  then have "\<bar>c\<bar> \<le> sqrt ((dx\<^sup>2 + dy\<^sup>2) * (ux\<^sup>2 + uy\<^sup>2))"
    by (rule real_le_rsqrt)
  then have "\<bar>c\<bar> \<le> sqrt (dx\<^sup>2 + dy\<^sup>2) * sqrt (ux\<^sup>2 + uy\<^sup>2)"
    by (simp add: real_sqrt_mult)
  moreover have "0 < sqrt (dx\<^sup>2 + dy\<^sup>2)" using dpos by simp
  ultimately have "\<bar>c\<bar> / sqrt (dx\<^sup>2 + dy\<^sup>2) \<le> sqrt (ux\<^sup>2 + uy\<^sup>2)"
    by (simp add: divide_le_eq mult.commute)
  then show ?thesis
    unfolding point_line_distance_def num
    by (simp add: dx_def dy_def ux_def uy_def)
qed

lemma point_line_distance_attained:
  assumes "p1 \<noteq> p2"
  shows "\<exists>t. point_line_distance p1 p2 p0 =
           sqrt ((fst p0 - (fst p1 + t * (fst p2 - fst p1)))\<^sup>2 +
                 (snd p0 - (snd p1 + t * (snd p2 - snd p1)))\<^sup>2)"
proof -
  define dx dy where "dx = fst p2 - fst p1" and "dy = snd p2 - snd p1"
  define wx wy where "wx = fst p0 - fst p1" and "wy = snd p0 - snd p1"
  define D where "D = dx\<^sup>2 + dy\<^sup>2"
  define t where "t = (wx * dx + wy * dy) / D"
  define c where "c = dy * wx - dx * wy"
  have "dx \<noteq> 0 \<or> dy \<noteq> 0"
    using assms by (auto simp: dx_def dy_def prod_eq_iff)
  then have dpos: "0 < D"
    by (auto simp: D_def sum_power2_gt_zero_iff)
  have num: "(snd p2 - snd p1) * fst p0 - (fst p2 - fst p1) * snd p0 + fst p2 * snd p1 -
             snd p2 * fst p1 = c"
    by (simp add: c_def wx_def wy_def dx_def dy_def algebra_simps)
  have tD: "t * D = wx * dx + wy * dy"
    using dpos by (simp add: t_def)
  have "(wx - t * dx) * D = wx * D - (t * D) * dx"
    by (simp add: algebra_simps)
  also have "\<dots> = dy * c"
    unfolding tD by (simp add: D_def c_def power2_eq_square algebra_simps)
  finally have ux: "wx - t * dx = dy * c / D"
    using dpos by (simp add: nonzero_eq_divide_eq)
  have "(wy - t * dy) * D = wy * D - (t * D) * dy"
    by (simp add: algebra_simps)
  also have "\<dots> = (- dx) * c"
    unfolding tD by (simp add: D_def c_def power2_eq_square algebra_simps)
  finally have "wy - t * dy = ((- dx) * c) / D"
    using dpos by (simp only: nonzero_eq_divide_eq)
  then have uy: "wy - t * dy = - dx * c / D" by simp
  have "(wx - t * dx)\<^sup>2 + (wy - t * dy)\<^sup>2 = (dy * c / D)\<^sup>2 + (- dx * c / D)\<^sup>2"
    unfolding ux uy ..
  also have "\<dots> = (c\<^sup>2 * dy\<^sup>2 + c\<^sup>2 * dx\<^sup>2) / D\<^sup>2"
    by (simp add: power_divide power_mult_distrib add_divide_distrib mult.commute)
  also have "\<dots> = c\<^sup>2 * D / D\<^sup>2"
    by (simp add: D_def distrib_left add.commute)
  also have "\<dots> = c\<^sup>2 / D" using dpos by (simp add: power2_eq_square)
  finally have "sqrt ((wx - t * dx)\<^sup>2 + (wy - t * dy)\<^sup>2) = \<bar>c\<bar> / sqrt D"
    by (simp add: real_sqrt_divide)
  then have "point_line_distance p1 p2 p0 =
           sqrt ((fst p0 - (fst p1 + t * (fst p2 - fst p1)))\<^sup>2 +
                 (snd p0 - (snd p1 + t * (snd p2 - snd p1)))\<^sup>2)"
    unfolding point_line_distance_def num
    by (simp add: dx_def dy_def wx_def wy_def D_def algebra_simps)
  then show ?thesis ..
qed

lemma upt_split:
  assumes "[a ..< b] = ps1 @ p # ps2"
  shows "ps1 = [a ..< p] \<and> ps2 = [p + 1 ..< b] \<and> a \<le> p \<and> p < b"
proof -
  let ?k = "length ps1"
  have "length [a ..< b] = ?k + 1 + length ps2" unfolding assms by simp
  then have k: "a + ?k < b" by simp
  have "[a ..< b] ! ?k = p" unfolding assms by simp
  then have p: "p = a + ?k" using k by simp
  have "ps1 = take ?k [a ..< b]" unfolding assms by simp
  then have 1: "ps1 = [a ..< p]" using k p by (simp add: take_upt)
  have "ps2 = drop (Suc ?k) [a ..< b]" unfolding assms by simp
  then have 2: "ps2 = [p + 1 ..< b]" using p by (simp add: drop_upt)
  show ?thesis using 1 2 p k by simp
qed

lemma findElbowPoint_fold:
  "findElbowPoint rnd variances =
     snd (fold (cand_step (\<lambda>x y. js_less y x) (elbow_value rnd variances))
            [2 ..< length variances + 1] (Num 0, 1))"
proof -
  have "elbow_step rnd variances [Num 1, js_nth variances 0]
          [Num (real (length variances)), js_nth variances (length variances - 1)] =
        cand_step (\<lambda>x y. js_less y x) (elbow_value rnd variances)"
    by (intro ext) (simp add: elbow_step_def cand_step_def elbow_value_def Let_def)
  then show ?thesis by (simp add: findElbowPoint_def Let_def)
qed

lemma findElbowPoint_structure:
  "(length variances \<le> 1 \<longrightarrow> findElbowPoint rnd variances = 1) \<and>
   1 \<le> findElbowPoint rnd variances \<and> findElbowPoint rnd variances \<le> max 1 (length variances) \<and>
   (findElbowPoint rnd variances = 1 \<and>
      (\<forall>i. 2 \<le> i \<and> i \<le> length variances \<longrightarrow> \<not> js_less (Num 0) (elbow_value rnd variances i)) \<or>
    2 \<le> findElbowPoint rnd variances \<and>
      js_less (Num 0) (elbow_value rnd variances (findElbowPoint rnd variances)) \<and>
      (\<forall>i. 2 \<le> i \<and> i \<le> length variances \<longrightarrow>
         \<not> js_less (elbow_value rnd variances (findElbowPoint rnd variances)) (elbow_value rnd variances i)) \<and>
      (\<forall>i. 2 \<le> i \<and> i < findElbowPoint rnd variances \<longrightarrow>
         elbow_value rnd variances i \<noteq> elbow_value rnd variances (findElbowPoint rnd variances)))"
proof -
  let ?n = "length variances"
  let ?f = "elbow_value rnd variances"
  let ?res = "fold (cand_step (\<lambda>x y. js_less y x) ?f) [2 ..< ?n + 1] (Num 0, 1)"
  have k: "findElbowPoint rnd variances = snd ?res" by (rule findElbowPoint_fold)
  from fold_cand_step_first [OF strict_order_js_greater, of ?f "[2 ..< ?n + 1]" "(Num 0, 1)"]
  show ?thesis
  proof
    assume "?res = (Num 0, 1) \<and> (\<forall>q\<in>set [2 ..< ?n + 1]. \<not> js_less (fst (Num 0, 1::nat)) (?f q))"
    then show ?thesis using k by auto
  next
    assume "\<exists>ps1 p ps2. [2 ..< ?n + 1] = ps1 @ p # ps2 \<and> ?res = (?f p, p) \<and>
        js_less (fst (Num 0, 1::nat)) (?f p) \<and>
        (\<forall>q\<in>set ps1. \<not> js_less (?f p) (?f q) \<and> ?f q \<noteq> ?f p) \<and>
        (\<forall>q\<in>set ps2. \<not> js_less (?f p) (?f q))"
    then obtain ps1 p ps2 where h: "[2 ..< ?n + 1] = ps1 @ p # ps2" "?res = (?f p, p)"
        "js_less (Num 0) (?f p)"
        "\<forall>q\<in>set ps1. \<not> js_less (?f p) (?f q) \<and> ?f q \<noteq> ?f p"
        "\<forall>q\<in>set ps2. \<not> js_less (?f p) (?f q)"
      by auto
    from upt_split [OF h(1)]
    have sp: "ps1 = [2 ..< p]" "ps2 = [p + 1 ..< ?n + 1]" "2 \<le> p" "p < ?n + 1" by simp_all
    have kp: "findElbowPoint rnd variances = p" using k h(2) by simp
    have all: "\<not> js_less (?f p) (?f i)" if "2 \<le> i \<and> i \<le> ?n" for i
    proof -
      consider "i < p" | "i = p" | "p < i" by linarith
      then show ?thesis
      proof cases
        case 1
        then have "i \<in> set ps1" unfolding sp(1) using that by auto
        then show ?thesis using h(4) by blast
      next
        case 2 then show ?thesis by (simp add: js_less_irrefl)
      next
        case 3
        then have "i \<in> set ps2" unfolding sp(2) using that by auto
        then show ?thesis using h(5) by blast
      qed
    qed
    have first: "?f i \<noteq> ?f p" if "2 \<le> i \<and> i < p" for i
    proof -
      have "i \<in> set ps1" unfolding sp(1) using that by auto
      then show ?thesis using h(4) by blast
    qed
    show ?thesis unfolding kp using sp(3,4) h(3) all first by auto
  qed
qed

lemma euclideanDistance_points:
  "euclideanDistance exact [Num x1, Num y1] [Num x2, Num y2] =
     Num (sqrt ((x2 - x1)\<^sup>2 + (y2 - y1)\<^sup>2))"
proof -
  have "(x1 - x2) * (x1 - x2) + (y1 - y2) * (y1 - y2) = (x2 - x1)\<^sup>2 + (y2 - y1)\<^sup>2"
    by (simp add: power2_eq_square algebra_simps)
  moreover have "\<not> (x1 - x2) * (x1 - x2) + (y1 - y2) * (y1 - y2) < 0"
    by (simp add: not_less)
  ultimately show ?thesis
    by (simp add: euclideanDistance_def js_nth_def js_sub_def upt_eval)
qed

lemma elbow_value_exact:
  assumes "2 \<le> length vs" and "1 \<le> i" and "i \<le> length vs"
  shows "elbow_value exact (map Num vs) i = Num (elbow_perp vs i)"
proof -
  let ?n = "length vs"
  have "1 < real ?n" using assms(1) by linarith
  then have "0 < (real ?n - 1)\<^sup>2" by simp
  then have "0 < (real ?n - 1)\<^sup>2 + (vs ! (?n - 1) - vs ! 0)\<^sup>2"
    by (rule add_pos_nonneg) simp
  then have "0 < sqrt ((real ?n - 1)\<^sup>2 + (vs ! (?n - 1) - vs ! 0)\<^sup>2)"
    by (simp only: real_sqrt_gt_0_iff)
  then have nz: "sqrt ((real ?n - 1)\<^sup>2 + (vs ! (?n - 1) - vs ! 0)\<^sup>2) \<noteq> 0"
    by (rule less_imp_neq [THEN not_sym])
  have v: "js_nth (map Num vs) 0 = Num (vs ! 0)"
    "js_nth (map Num vs) (?n - 1) = Num (vs ! (?n - 1))"
    "js_nth (map Num vs) (i - 1) = Num (vs ! (i - 1))"
  proof -
    have "0 < ?n" "?n - 1 < ?n" "i - 1 < ?n" using assms by linarith+
    then show "js_nth (map Num vs) 0 = Num (vs ! 0)"
      "js_nth (map Num vs) (?n - 1) = Num (vs ! (?n - 1))"
      "js_nth (map Num vs) (i - 1) = Num (vs ! (i - 1))"
      by (simp_all add: js_nth_def)
  qed
  show ?thesis
    unfolding elbow_value_def elbow_distance_def length_map v euclideanDistance_points
    using nz by (simp add: js_nth_def js_sub_def point_line_distance_def elbow_perp_def)
qed

lemma elbow_perp_nonneg: "0 \<le> elbow_perp vs i"
  by (simp add: elbow_perp_def point_line_distance_def)

lemma elbow_perp_first: "elbow_perp vs 1 = 0" "elbow_perp vs (Suc 0) = 0"
  by (simp_all add: elbow_perp_def point_line_distance_def algebra_simps)

lemma elbow_perp_last: "elbow_perp vs (length vs) = 0"
  by (simp add: elbow_perp_def point_line_distance_def algebra_simps)

lemma findElbowPoint_exact:
  assumes "2 \<le> length vs"
  shows "(\<forall>i. 1 \<le> i \<and> i \<le> length vs \<longrightarrow>
            elbow_perp vs i \<le> elbow_perp vs (findElbowPoint exact (map Num vs))) \<and>
         (\<forall>i. 1 \<le> i \<and> i < findElbowPoint exact (map Num vs) \<longrightarrow>
            elbow_perp vs i < elbow_perp vs (findElbowPoint exact (map Num vs)))"
proof -
  let ?k = "findElbowPoint exact (map Num vs)"
  let ?n = "length vs"
  have ev: "elbow_value exact (map Num vs) i = Num (elbow_perp vs i)"
    if "1 \<le> i" "i \<le> ?n" for i
    using elbow_value_exact [OF assms that] .
  from findElbowPoint_structure [of "map Num vs" exact]
  have range: "1 \<le> ?k" "?k \<le> ?n" and
    cases: "?k = 1 \<and> (\<forall>i. 2 \<le> i \<and> i \<le> ?n \<longrightarrow>
              \<not> js_less (Num 0) (elbow_value exact (map Num vs) i)) \<or>
         2 \<le> ?k \<and> js_less (Num 0) (elbow_value exact (map Num vs) ?k) \<and>
         (\<forall>i. 2 \<le> i \<and> i \<le> ?n \<longrightarrow>
            \<not> js_less (elbow_value exact (map Num vs) ?k) (elbow_value exact (map Num vs) i)) \<and>
         (\<forall>i. 2 \<le> i \<and> i < ?k \<longrightarrow>
            elbow_value exact (map Num vs) i \<noteq> elbow_value exact (map Num vs) ?k)"
    using assms by simp_all
  from cases show ?thesis
  proof
    assume h: "?k = 1 \<and> (\<forall>i. 2 \<le> i \<and> i \<le> ?n \<longrightarrow>
              \<not> js_less (Num 0) (elbow_value exact (map Num vs) i))"
    have "elbow_perp vs i \<le> 0" if "1 \<le> i" "i \<le> ?n" for i
    proof (cases "i = 1")
      case True
      then show ?thesis by (simp add: elbow_perp_first)
    next
      case False
      then have "2 \<le> i" using that(1) by simp
      then have "\<not> js_less (Num 0) (elbow_value exact (map Num vs) i)"
        using h that(2) by blast
      then show ?thesis using ev [OF that] by simp
    qed
    then show ?thesis using h by (simp add: elbow_perp_first)
  next
    assume h: "2 \<le> ?k \<and> js_less (Num 0) (elbow_value exact (map Num vs) ?k) \<and>
         (\<forall>i. 2 \<le> i \<and> i \<le> ?n \<longrightarrow>
            \<not> js_less (elbow_value exact (map Num vs) ?k) (elbow_value exact (map Num vs) i)) \<and>
         (\<forall>i. 2 \<le> i \<and> i < ?k \<longrightarrow>
            elbow_value exact (map Num vs) i \<noteq> elbow_value exact (map Num vs) ?k)"
    have evk: "elbow_value exact (map Num vs) ?k = Num (elbow_perp vs ?k)"
      using ev [OF range] .
    have pos: "0 < elbow_perp vs ?k" using h evk by simp
    have le: "elbow_perp vs i \<le> elbow_perp vs ?k" if "1 \<le> i" "i \<le> ?n" for i
    proof (cases "i = 1")
      case True
      then show ?thesis using pos by (simp add: elbow_perp_first)
    next
      case False
      then have "2 \<le> i" using that(1) by simp
      then have "\<not> js_less (elbow_value exact (map Num vs) ?k) (elbow_value exact (map Num vs) i)"
        using h that(2) by blast
      then show ?thesis using ev [OF that] evk by simp
    qed
    have lt: "elbow_perp vs i < elbow_perp vs ?k" if "1 \<le> i" "i < ?k" for i
    proof (cases "i = 1")
      case True
      then show ?thesis using pos by (simp add: elbow_perp_first)
    next
      case False
      then have i2: "2 \<le> i" using that(1) by simp
      have in_range: "i \<le> ?n" using that(2) range(2) by simp
      have "elbow_value exact (map Num vs) i \<noteq> elbow_value exact (map Num vs) ?k"
        using h i2 that(2) by blast
      then have "elbow_perp vs i \<noteq> elbow_perp vs ?k"
        using ev [OF that(1) in_range] evk by simp
      then show ?thesis using le [OF that(1) in_range] by simp
    qed
    show ?thesis using le lt by blast
  qed
qed

lemma findElbowPoint_two_points_exact:
  assumes "length vs = 2"
  shows "findElbowPoint exact (map Num vs) = 1"
proof -
  let ?k = "findElbowPoint exact (map Num vs)"
  have n: "2 \<le> length vs" using assms by simp
  from findElbowPoint_structure [of "map Num vs" exact]
  have range: "1 \<le> ?k" "?k \<le> 2" using assms by simp_all
  have "\<not> 2 \<le> ?k"
  proof
    assume "2 \<le> ?k"
    then have k: "?k = 2" using range by simp
    then have "elbow_perp vs 1 < elbow_perp vs 2"
      using findElbowPoint_exact [OF n] by auto
    then show False using elbow_perp_first(1) [of vs] elbow_perp_last [of vs] assms by simp
  qed
  then show ?thesis using range by simp
qed

text \<open>
  C6, as stated, fails for two points with the arithmetic of the doubles: for the
  variances \<open>[1, 2\<^sup>-\<^sup>6\<^sup>0]\<close> the second point is the last point, on the line, but the
  distance computed for it is not \<open>0\<close>. The difference \<open>2\<^sup>-\<^sup>6\<^sup>0 - 1\<close> is rounded to \<open>-1\<close>
  and \<open>-2 - 2\<^sup>-\<^sup>6\<^sup>0\<close> to \<open>-2\<close>, which leaves the numerator \<open>-2\<^sup>-\<^sup>6\<^sup>0\<close>; the quotient by
  the rounded \<open>sqrt 2\<close> is a positive number, so the result is \<open>2\<close>, not \<open>1\<close>. (The same
  happens for \<open>[0.3, 0.1]\<close>.)
\<close>

theorem findElbowPoint_two_points_rounded:
  "findElbowPoint ieee_double [Num 1, Num (1 / 2 ^ 60)] = 2"
proof -
  define t :: real where "t = 1 / 2 ^ 60"
  have tpos: "0 < t" by (simp add: t_def)
  have "1 \<le> sqrt 2" "sqrt 2 < 2"
    by (simp_all add: real_less_lsqrt)
  then have "2 powi 0 \<le> sqrt 2" "sqrt 2 < 2 powi (0 + 1)" by simp_all
  from ieee_double_binade_range [OF this]
  obtain d where d: "ieee_double (sqrt 2) = Num d" "1 \<le> d" "d \<le> 2" by auto
  have "t / 2 \<le> t / d" using d(2,3) tpos by (intro divide_left_mono) simp_all
  moreover have "t / d \<le> t" using d tpos by (simp add: divide_le_eq)
  moreover have "2 powi (- 1022) \<le> t / 2" by (simp add: t_def)
  moreover have "t < 2 powi 1023" by (simp add: t_def)
  ultimately have "2 powi (- 1022) \<le> t / d" "t / d < 2 powi 1023" by linarith+
  from ieee_double_positive [OF this]
  obtain r where r: "ieee_double (t / d) = Num r" "0 < r" by auto
  have dnz: "d \<noteq> 0" using d(2) by simp
  have "findElbowPoint ieee_double [Num 1, Num t] = 2"
    using d(1) r dnz
    by (simp add: findElbowPoint_def elbow_step_def elbow_distance_def euclideanDistance_def
          js_nth_def js_sub_def upt_eval ieee_double_0 ieee_double_1 ieee_double_2
          ieee_double_m1 ieee_double_m2 ieee_double_tiny [OF t_def]
          abs_of_pos [OF tpos] Let_def)
  then show ?thesis unfolding t_def .
qed

text \<open>
  C6, amended. For every rounding: the result of \<open>findElbowPoint\<close> is \<open>1\<close> for at most
  one point and always lies between \<open>1\<close> and the number of points; either it is \<open>1\<close> and
  no computed distance of the points \<open>2, ..., N\<close> is above \<open>0\<close>, or it is a point
  \<open>K \<ge> 2\<close> whose computed distance is above \<open>0\<close>, is exceeded by no computed distance
  of the points \<open>2, ..., N\<close>, and differs from that of every earlier point. In exact
  arithmetic, on at least two real variances: the computed distance of every point is its
  perpendicular distance to the line through the first and the last point, the result
  is a point of maximum perpendicular distance, every earlier point is strictly nearer
  to the line, and for two points the result is \<open>1\<close>.
\<close>

theorem findElbowPoint_first_maximum:
  "(length variances \<le> 1 \<longrightarrow> findElbowPoint rnd variances = 1) \<and>
   1 \<le> findElbowPoint rnd variances \<and>
   findElbowPoint rnd variances \<le> max 1 (length variances) \<and>
   (findElbowPoint rnd variances = 1 \<and>
      (\<forall>i. 2 \<le> i \<and> i \<le> length variances \<longrightarrow>
         \<not> js_less (Num 0) (elbow_value rnd variances i)) \<or>
    2 \<le> findElbowPoint rnd variances \<and>
      js_less (Num 0) (elbow_value rnd variances (findElbowPoint rnd variances)) \<and>
      (\<forall>i. 2 \<le> i \<and> i \<le> length variances \<longrightarrow>
         \<not> js_less (elbow_value rnd variances (findElbowPoint rnd variances))
              (elbow_value rnd variances i)) \<and>
      (\<forall>i. 2 \<le> i \<and> i < findElbowPoint rnd variances \<longrightarrow>
         elbow_value rnd variances i \<noteq>
         elbow_value rnd variances (findElbowPoint rnd variances))) \<and>
   (2 \<le> length vs \<longrightarrow>
      (\<forall>i. 1 \<le> i \<and> i \<le> length vs \<longrightarrow>
         elbow_value exact (map Num vs) i = Num (elbow_perp vs i)) \<and>
      (\<forall>i. 1 \<le> i \<and> i \<le> length vs \<longrightarrow>
         elbow_perp vs i \<le> elbow_perp vs (findElbowPoint exact (map Num vs))) \<and>
      (\<forall>i. 1 \<le> i \<and> i < findElbowPoint exact (map Num vs) \<longrightarrow>
         elbow_perp vs i < elbow_perp vs (findElbowPoint exact (map Num vs)))) \<and>
   (length vs = 2 \<longrightarrow> findElbowPoint exact (map Num vs) = 1)"
proof -
  have "2 \<le> length vs \<longrightarrow>
      (\<forall>i. 1 \<le> i \<and> i \<le> length vs \<longrightarrow>
         elbow_value exact (map Num vs) i = Num (elbow_perp vs i)) \<and>
      (\<forall>i. 1 \<le> i \<and> i \<le> length vs \<longrightarrow>
         elbow_perp vs i \<le> elbow_perp vs (findElbowPoint exact (map Num vs))) \<and>
      (\<forall>i. 1 \<le> i \<and> i < findElbowPoint exact (map Num vs) \<longrightarrow>
         elbow_perp vs i < elbow_perp vs (findElbowPoint exact (map Num vs)))"
    using elbow_value_exact [of vs] findElbowPoint_exact [of vs] by blast
  moreover have "length vs = 2 \<longrightarrow> findElbowPoint exact (map Num vs) = 1"
    using findElbowPoint_two_points_exact [of vs] by blast
  ultimately show ?thesis
    using findElbowPoint_structure [of variances rnd] by blast
qed

theorem findElbowPoint_first_maximum_witness:
  "findElbowPoint exact (map Num [1, 0, 1]) = 2 \<and>
   elbow_perp [1, 0, 1] 1 = 0 \<and> elbow_perp [1, 0, 1] 2 = 1 \<and> elbow_perp [1, 0, 1] 3 = 0 \<and>
   findElbowPoint exact (map Num [3, 5]) = 1 \<and>
   findElbowPoint ieee_double [Num 7] = 1"
  using findElbowPoint_first_maximum [of "[Num 7]" ieee_double "[1, 0, 1]"]
        findElbowPoint_first_maximum [of "[Num 7]" ieee_double "[3, 5]"]
  by (simp add: findElbowPoint_def elbow_step_def elbow_distance_def euclideanDistance_def
        js_nth_def js_sub_def upt_eval elbow_perp_def point_line_distance_def)

end
